theory Spec2Isabelle
  imports Main "HOL-Library.Word"
begin

section \<open>The PCM streaming client of \<^verbatim>\<open>atk_s3_audio_stream/main/net_stream.cc\<close>\<close>

text \<open>
  The two streamer tasks of \<^verbatim>\<open>net_stream.cc\<close> are embedded as they are written:
  the packed header struct as a record with its byte image, \<^verbatim>\<open>send_all\<close> and
  \<^verbatim>\<open>recv_all\<close> as the loops they are, and each task as a step function over the
  program points of its two nested \<^verbatim>\<open>while (true)\<close> loops. Everything the tasks
  get from outside (the answers of the network stack and of the audio codec) is a script
  held in the state; everything they do to the outside is appended to a trace.
\<close>

subsection \<open>The packet header\<close>

type_synonym byte = "8 word"
type_synonym sample = "16 word"

text \<open>\<^verbatim>\<open>struct __attribute__((packed)) PcmHeader { uint32_t magic; uint8_t type; uint16_t len; }\<close>\<close>

record PcmHeader =
  magic :: "32 word"
  type :: byte
  len :: "16 word"

definition PCM_MAGIC :: "32 word" where
  "PCM_MAGIC = 0x304D4350"

text \<open>
  The header is sent and received as the bytes of the struct in memory
  (\<^verbatim>\<open>(uint8_t*)&hdr\<close>, \<^verbatim>\<open>sizeof(hdr)\<close>): seven bytes, no padding, each field in the
  byte order of the machine. The ESP32-S3 is little-endian; the byte order is a parameter
  of the byte image so that nothing below depends on that choice.
\<close>

datatype byte_order = LittleEndian | BigEndian

definition native :: "byte_order \<Rightarrow> byte list \<Rightarrow> byte list" where
  "native e bs = (case e of LittleEndian \<Rightarrow> bs | BigEndian \<Rightarrow> rev bs)"

definition u16_bytes :: "byte_order \<Rightarrow> 16 word \<Rightarrow> byte list" where
  "u16_bytes e w = native e [ucast w, ucast (drop_bit 8 w)]"

definition u32_bytes :: "byte_order \<Rightarrow> 32 word \<Rightarrow> byte list" where
  "u32_bytes e w =
     native e [ucast w, ucast (drop_bit 8 w), ucast (drop_bit 16 w), ucast (drop_bit 24 w)]"

definition bytes_u16 :: "byte_order \<Rightarrow> byte list \<Rightarrow> 16 word" where
  "bytes_u16 e bs = (case native e bs of
      [b0, b1] \<Rightarrow> or (ucast b0) (push_bit 8 (ucast b1))
    | _ \<Rightarrow> 0)"

definition bytes_u32 :: "byte_order \<Rightarrow> byte list \<Rightarrow> 32 word" where
  "bytes_u32 e bs = (case native e bs of
      [b0, b1, b2, b3] \<Rightarrow>
        or (ucast b0)
          (or (push_bit 8 (ucast b1)) (or (push_bit 16 (ucast b2)) (push_bit 24 (ucast b3))))
    | _ \<Rightarrow> 0)"

text \<open>The memory image of a header, and the header that a seven-byte memory image holds.\<close>

definition hdr_bytes :: "byte_order \<Rightarrow> PcmHeader \<Rightarrow> byte list" where
  "hdr_bytes e h = u32_bytes e (magic h) @ [type h] @ u16_bytes e (len h)"

fun hdr_parse :: "byte_order \<Rightarrow> byte list \<Rightarrow> PcmHeader option" where
  "hdr_parse e [m0, m1, m2, m3, t, l0, l1] =
     Some \<lparr>magic = bytes_u32 e [m0, m1, m2, m3], type = t, len = bytes_u16 e [l0, l1]\<rparr>"
| "hdr_parse e _ = None"

text \<open>
  Line 97: \<^verbatim>\<open>PcmHeader hdr{ PCM_MAGIC, 0x01, (uint16_t)(frame.size() * sizeof(int16_t)) }\<close>.
  The direction tag is a parameter here; the uplink passes \<open>1\<close>. The cast to
  \<^verbatim>\<open>uint16_t\<close> keeps the byte count modulo \<open>65536\<close>.
\<close>

definition pcm_header :: "byte \<Rightarrow> sample list \<Rightarrow> PcmHeader" where
  "pcm_header t frame = \<lparr>magic = PCM_MAGIC, type = t, len = of_nat (length frame * 2)\<rparr>"

text \<open>The bytes of a sample buffer (\<^verbatim>\<open>(uint8_t*)frame.data()\<close>) and back.\<close>

definition frame_bytes :: "byte_order \<Rightarrow> sample list \<Rightarrow> byte list" where
  "frame_bytes e frame = concat (map (u16_bytes e) frame)"

fun bytes_frame :: "byte_order \<Rightarrow> byte list \<Rightarrow> sample list" where
  "bytes_frame e (b0 # b1 # bs) = bytes_u16 e [b0, b1] # bytes_frame e bs"
| "bytes_frame e _ = []"

text \<open>Line 125: the test under which the downlink logs "Invalid packet" and breaks.\<close>

definition invalid_packet :: "PcmHeader \<Rightarrow> bool" where
  "invalid_packet hdr \<longleftrightarrow> magic hdr \<noteq> PCM_MAGIC \<or> type hdr \<noteq> 0x02 \<or> len hdr = 0"

subsection \<open>Sockets\<close>

text \<open>
  A connected socket carries the behaviour of its transport: \<open>tx\<close> lists how many bytes
  the successive \<^verbatim>\<open>send\<close> calls are willing to take (zero or negative: the call
  fails with that value), \<open>rx\<close> what the successive \<^verbatim>\<open>recv\<close> calls find. When a list
  is used up the connection is gone: \<^verbatim>\<open>send\<close> returns \<open>-1\<close>, \<^verbatim>\<open>recv\<close> returns
  \<open>0\<close> (end of stream). \<open>out\<close> collects the bytes the transport has taken.
\<close>

datatype rx_event = RxBytes "byte list" | RxError

record sock =
  fd :: int
  tx :: "int list"
  rx :: "rx_event list"
  out :: "byte list"

text \<open>\<^verbatim>\<open>::send(sock, buf, n, 0)\<close> with \<open>buf\<close> the \<open>n\<close> bytes offered: returns at most \<open>n\<close>.\<close>

definition send :: "byte list \<Rightarrow> sock \<Rightarrow> int \<times> sock" where
  "send buf s = (case tx s of
      [] \<Rightarrow> (- 1, s)
    | r # rs \<Rightarrow>
        if r \<le> 0 then (r, s\<lparr>tx := rs\<rparr>)
        else (int (min (nat r) (length buf)),
              s\<lparr>tx := rs, out := out s @ take (min (nat r) (length buf)) buf\<rparr>))"

text \<open>\<^verbatim>\<open>::recv(sock, buf, n, 0)\<close>: returns the count and the bytes written to \<open>buf\<close>.\<close>

definition recv :: "nat \<Rightarrow> sock \<Rightarrow> int \<times> byte list \<times> sock" where
  "recv n s = (case rx s of
      [] \<Rightarrow> (0, [], s)
    | RxError # q \<Rightarrow> (- 1, [], s\<lparr>rx := q\<rparr>)
    | RxBytes bs # q \<Rightarrow>
        if length bs \<le> n then (int (length bs), bs, s\<lparr>rx := q\<rparr>)
        else (int n, take n bs, s\<lparr>rx := RxBytes (drop n bs) # q\<rparr>))"

text \<open>
  Lines 21--29, \<^verbatim>\<open>send_all\<close>: \<open>data\<close> is the buffer of \<open>len\<close> bytes, \<open>sent\<close> the
  loop variable.
\<close>

function send_loop :: "byte list \<Rightarrow> nat \<Rightarrow> sock \<Rightarrow> bool \<times> sock" where
  "send_loop data sent s =
     (if sent < length data then
        (case send (drop sent data) s of (ret, s') \<Rightarrow>
           if ret \<le> 0 then (False, s') else send_loop data (sent + nat ret) s')
      else (True, s))"
  by pat_completeness auto
termination
  by (relation "measure (\<lambda>(data, sent, s). length data - sent)") auto

definition send_all :: "byte list \<Rightarrow> sock \<Rightarrow> bool \<times> sock" where
  "send_all data s = send_loop data 0 s"

text \<open>
  Lines 31--39, \<^verbatim>\<open>recv_all\<close>: \<open>n\<close> is the parameter \<^verbatim>\<open>len\<close>, \<open>recvd\<close> the loop
  variable, \<open>data\<close> the bytes written to the buffer so far (at offsets \<open>0\<close> to \<open>recvd\<close>).
\<close>

function recv_loop :: "nat \<Rightarrow> nat \<Rightarrow> byte list \<Rightarrow> sock \<Rightarrow> bool \<times> byte list \<times> sock" where
  "recv_loop n recvd data s =
     (if recvd < n then
        (case recv (n - recvd) s of (ret, bs, s') \<Rightarrow>
           if ret \<le> 0 then (False, data, s') else recv_loop n (recvd + nat ret) (data @ bs) s')
      else (True, data, s))"
  by pat_completeness auto
termination
  by (relation "measure (\<lambda>(n, recvd, data, s). n - recvd)") auto

definition recv_all :: "nat \<Rightarrow> sock \<Rightarrow> bool \<times> byte list \<times> sock" where
  "recv_all n s = recv_loop n 0 [] s"

subsection \<open>The connection attempt\<close>

text \<open>
  Lines 41--68, \<^verbatim>\<open>connect_to\<close>. What the network stack answers to one call is an
  \<open>attempt\<close>: the return value of \<^verbatim>\<open>getaddrinfo\<close> and whether it set \<^verbatim>\<open>res\<close>, the
  return values of \<^verbatim>\<open>::socket\<close> and \<^verbatim>\<open>::connect\<close>, and the transport behind the
  socket if the connection is made. The endpoint \<^verbatim>\<open>cfg\<close> only feeds \<^verbatim>\<open>getaddrinfo\<close>
  and is part of what the attempt answers.
\<close>

record attempt =
  gai_err :: int
  gai_res :: bool
  socket_ret :: int
  connect_ret :: int
  conn_tx :: "int list"
  conn_rx :: "rx_event list"

definition connect_to :: "attempt \<Rightarrow> int" where
  "connect_to a =
     (if gai_err a \<noteq> 0 \<or> \<not> gai_res a then - 1
      else if socket_ret a < 0 then - 1
      else if connect_ret a \<noteq> 0 then - 1
      else socket_ret a)"

subsection \<open>The world of a task\<close>

text \<open>
  What a task does to the outside, in order: one action per call site of the source.
  \<open>Delay ms\<close> is \<^verbatim>\<open>vTaskDelay(pdMS_TO_TICKS(ms))\<close>; \<open>Hello ok\<close> is the
  \<^verbatim>\<open>send_all\<close> of the direction token with its result; \<open>SendHeader\<close> and
  \<open>SendPayload\<close> are the two \<^verbatim>\<open>send_all\<close> calls of lines 98 and 99 with their
  results; \<open>WriteOutOfBounds n cap\<close> records that \<open>n\<close> bytes were written into a buffer
  of \<open>cap\<close> bytes.
\<close>

datatype action =
    ConnectFailed
  | Connected int
  | Delay nat
  | Hello bool
  | SendHeader PcmHeader bool
  | SendPayload "sample list" bool
  | InvalidPacket PcmHeader
  | WriteOutOfBounds nat nat
  | EnableInput bool
  | EnableOutput bool
  | OutputData "sample list"
  | Close int

text \<open>
  The world holds the scripts of the outside and the trace. \<open>network\<close> answers the
  successive \<^verbatim>\<open>connect_to\<close> calls (used up: name resolution fails); \<open>capture\<close>
  answers the successive \<^verbatim>\<open>InputData\<close> calls, \<open>None\<close> for no data (used up: no
  data). The codec reports its sample rate and channel count as C \<^verbatim>\<open>int\<close>s; they are
  counts, and a block too large for the address space cannot be allocated, so they and
  the block size are naturals here.
\<close>

record world =
  network :: "attempt list"
  input_sample_rate :: nat
  input_channels :: nat
  input_enabled :: bool
  output_enabled :: bool
  capture :: "sample list option list"
  trace :: "action list"

definition log :: "action list \<Rightarrow> world \<Rightarrow> world" where
  "log as w = w\<lparr>trace := trace w @ as\<rparr>"

text \<open>
  Modelled from the spec: \<^verbatim>\<open>AudioCodec::EnableInput\<close> (the class \<^verbatim>\<open>AudioCodec\<close> of
  \<^verbatim>\<open>audio_codec.h\<close> is not among the sources). Section 6 of the specification:
  \<^verbatim>\<open>isInputEnabled() -> bool\<close>, \<^verbatim>\<open>enableInput(bool)\<close>.
\<close>

definition EnableInput_call :: "bool \<Rightarrow> world \<Rightarrow> world" where
  "EnableInput_call b w = log [EnableInput b] (w\<lparr>input_enabled := b\<rparr>)"

text \<open>
  Modelled from the spec: \<^verbatim>\<open>AudioCodec::EnableOutput\<close>, the mirrored
  \<^verbatim>\<open>isOutputEnabled\<close>, \<^verbatim>\<open>enableOutput\<close> of section 6.
\<close>

definition EnableOutput_call :: "bool \<Rightarrow> world \<Rightarrow> world" where
  "EnableOutput_call b w = log [EnableOutput b] (w\<lparr>output_enabled := b\<rparr>)"

text \<open>
  Modelled from the spec: \<^verbatim>\<open>AudioCodec::InputData\<close>. Section 6:
  \<^verbatim>\<open>produceInputBlock(buffer) -> bool\<close> "fills buffer, returns false if no data yet".
  Filling overwrites the buffer and leaves its size as it is.
\<close>

definition InputData :: "sample list \<Rightarrow> world \<Rightarrow> bool \<times> sample list \<times> world" where
  "InputData frame w = (case capture w of
      [] \<Rightarrow> (False, frame, w)
    | None # c \<Rightarrow> (False, frame, w\<lparr>capture := c\<rparr>)
    | Some blk # c \<Rightarrow>
        (True, take (length frame) blk @ drop (length blk) frame, w\<lparr>capture := c\<rparr>))"

text \<open>
  Modelled from the spec: \<^verbatim>\<open>AudioCodec::OutputData\<close>, the
  \<^verbatim>\<open>consumeOutputBlock(buffer)\<close> of section 6: the block is handed to playback.
\<close>

definition OutputData_call :: "sample list \<Rightarrow> world \<Rightarrow> world" where
  "OutputData_call buf w = log [OutputData buf] w"

subsection \<open>The two tasks\<close>

text \<open>
  The program points of a task: \<open>Connecting\<close> is the head of the outer loop (lines 81
  and 113), \<open>Handshaking\<close> the block that sends the token (lines 88 and 117),
  \<open>Streaming\<close> the head of the inner loop (lines 94 and 123), \<open>Closing\<close> the two
  lines after the inner loop (lines 101 and 134). The socket is the local \<^verbatim>\<open>sock\<close>.
\<close>

datatype pc = Connecting | Handshaking sock | Streaming sock | Closing sock

definition native_order :: byte_order where
  "native_order = LittleEndian"

definition hello_up :: "byte list" where
  "hello_up = map of_char ''HELLO-UP''"

definition hello_down :: "byte list" where
  "hello_down = map of_char ''HELLO-DOWN''"

text \<open>
  Lines 81--85 and 113--114: \<^verbatim>\<open>connect_to\<close>, and on a negative result the delay of
  2000 ms and \<^verbatim>\<open>continue\<close>.
\<close>

definition connect_step :: "world \<Rightarrow> pc \<times> world" where
  "connect_step w = (case network w of
      [] \<Rightarrow> (Connecting, log [ConnectFailed, Delay 2000] w)
    | a # as \<Rightarrow>
        if connect_to a < 0 then (Connecting, log [ConnectFailed, Delay 2000] (w\<lparr>network := as\<rparr>))
        else (Handshaking \<lparr>fd = connect_to a, tx = conn_tx a, rx = conn_rx a, out = []\<rparr>,
              log [Connected (connect_to a)] (w\<lparr>network := as\<rparr>)))"

text \<open>Lines 101--102 and 134--135: \<^verbatim>\<open>::close(sock)\<close>, the delay of 1000 ms, and around.\<close>

definition close_step :: "sock \<Rightarrow> world \<Rightarrow> pc \<times> world" where
  "close_step s w = (Connecting, log [Close (fd s), Delay 1000] w)"

text \<open>Lines 76--78: the block size, computed once when the task starts.\<close>

definition frame_samples :: "world \<Rightarrow> nat" where
  "frame_samples w = input_sample_rate w div 50"

definition mic_start :: "world \<Rightarrow> pc \<times> sample list \<times> world" where
  "mic_start w = (Connecting, replicate (frame_samples w * input_channels w) 0, w)"

text \<open>Lines 94--99: one turn of the inner loop of the uplink, after a block was read.\<close>

definition send_frame :: "sock \<Rightarrow> sample list \<Rightarrow> world \<Rightarrow> pc \<times> sample list \<times> world" where
  "send_frame s frame w =
     (case send_all (hdr_bytes native_order (pcm_header 0x01 frame)) s of (ok, s1) \<Rightarrow>
        if \<not> ok then (Closing s1, frame, log [SendHeader (pcm_header 0x01 frame) False] w)
        else (case send_all (frame_bytes native_order frame) s1 of (ok2, s2) \<Rightarrow>
          if \<not> ok2
          then (Closing s2, frame,
                log [SendHeader (pcm_header 0x01 frame) True, SendPayload frame False] w)
          else (Streaming s2, frame,
                log [SendHeader (pcm_header 0x01 frame) True, SendPayload frame True] w)))"

definition ensure_input :: "world \<Rightarrow> world" where
  "ensure_input w = (if \<not> input_enabled w then EnableInput_call True w else w)"

definition ensure_output :: "world \<Rightarrow> world" where
  "ensure_output w = (if \<not> output_enabled w then EnableOutput_call True w else w)"

text \<open>Lines 80--103, \<^verbatim>\<open>mic_uplink_task\<close>: one step from each program point.\<close>

fun mic_step :: "pc \<Rightarrow> sample list \<Rightarrow> world \<Rightarrow> pc \<times> sample list \<times> world" where
  "mic_step Connecting frame w = (case connect_step w of (p, w') \<Rightarrow> (p, frame, w'))"
| "mic_step (Handshaking s) frame w =
     (case send_all hello_up s of (ok, s') \<Rightarrow> (Streaming s', frame, log [Hello ok] w))"
| "mic_step (Streaming s) frame w =
     (case InputData frame (ensure_input w) of (got, frame', w') \<Rightarrow>
        if \<not> got then (Streaming s, frame', log [Delay 5] w')
        else send_frame s frame' w')"
| "mic_step (Closing s) frame w = (case close_step s w of (p, w') \<Rightarrow> (p, frame, w'))"

text \<open>
  Lines 123--132: one turn of the inner loop of the downlink, after a header that passed
  the test of line 125. The buffer has \<^verbatim>\<open>hdr.len / sizeof(int16_t)\<close> samples and
  \<^verbatim>\<open>recv_all\<close> is asked for \<^verbatim>\<open>hdr.len\<close> bytes; the samples handed to the codec are
  those of the buffer, and the bytes that \<^verbatim>\<open>recv\<close> wrote past its end are recorded.
\<close>

definition recv_frame :: "PcmHeader \<Rightarrow> sock \<Rightarrow> world \<Rightarrow> pc \<times> world" where
  "recv_frame hdr s w =
     (case recv_all (unat (len hdr)) s of (ok, data, s') \<Rightarrow>
        if \<not> ok then (Closing s', w)
        else (Streaming s',
              OutputData_call
                (bytes_frame native_order (take (2 * (unat (len hdr) div 2)) data))
                (ensure_output
                  (if 2 * (unat (len hdr) div 2) < length data
                   then log [WriteOutOfBounds (length data) (2 * (unat (len hdr) div 2))] w
                   else w))))"

text \<open>
  Lines 112--136, \<^verbatim>\<open>spk_downlink_task\<close>: one step from each program point. A
  successful \<^verbatim>\<open>recv_all\<close> of \<^verbatim>\<open>sizeof(hdr)\<close> bytes has filled the seven bytes
  of \<^verbatim>\<open>hdr\<close>, so \<open>hdr_parse\<close> has a header there.
\<close>

fun spk_step :: "pc \<Rightarrow> world \<Rightarrow> pc \<times> world" where
  "spk_step Connecting w = connect_step w"
| "spk_step (Handshaking s) w =
     (case send_all hello_down s of (ok, s') \<Rightarrow> (Streaming s', log [Hello ok] w))"
| "spk_step (Streaming s) w =
     (case recv_all 7 s of (ok, raw, s') \<Rightarrow>
        if \<not> ok then (Closing s', w)
        else (case hdr_parse native_order raw of
            None \<Rightarrow> (Closing s', w)
          | Some hdr \<Rightarrow>
              if invalid_packet hdr then (Closing s', log [InvalidPacket hdr] w)
              else recv_frame hdr s' w))"
| "spk_step (Closing s) w = close_step s w"

text \<open>Running a task for a number of steps.\<close>

fun mic_run :: "nat \<Rightarrow> pc \<times> sample list \<times> world \<Rightarrow> pc \<times> sample list \<times> world" where
  "mic_run 0 st = st"
| "mic_run (Suc n) (p, frame, w) = mic_run n (mic_step p frame w)"

fun spk_run :: "nat \<Rightarrow> pc \<times> world \<Rightarrow> pc \<times> world" where
  "spk_run 0 st = st"
| "spk_run (Suc n) (p, w) = spk_run n (spk_step p w)"

subsection \<open>Scripts of the outside\<close>

text \<open>
  How many bytes a stream still delivers before a \<^verbatim>\<open>recv\<close> returns zero or an error
  (the end of the script being the end of the stream).
\<close>

fun avail :: "rx_event list \<Rightarrow> nat" where
  "avail [] = 0"
| "avail (RxError # q) = 0"
| "avail (RxBytes bs # q) = (if bs = [] then 0 else length bs + avail q)"

text \<open>
  Concrete outsides for the examples: a world whose codec reports the given sample rate and
  channel count, with nothing scripted and nothing done yet; a connected socket with the
  given transport; a connection attempt that succeeds with the given transport, and one
  on which \<^verbatim>\<open>::connect\<close> fails.
\<close>

definition quiet_world :: "nat \<Rightarrow> nat \<Rightarrow> world" where
  "quiet_world r c = \<lparr>network = [], input_sample_rate = r, input_channels = c,
     input_enabled = False, output_enabled = False, capture = [], trace = []\<rparr>"

definition test_sock :: "int list \<Rightarrow> rx_event list \<Rightarrow> sock" where
  "test_sock t q = \<lparr>fd = 3, tx = t, rx = q, out = []\<rparr>"

definition server :: "int list \<Rightarrow> rx_event list \<Rightarrow> attempt" where
  "server t q = \<lparr>gai_err = 0, gai_res = True, socket_ret = 3, connect_ret = 0,
     conn_tx = t, conn_rx = q\<rparr>"


text \<open>The actions that make, refuse or end a connection.\<close>

definition connection_action :: "action \<Rightarrow> bool" where
  "connection_action a = (case a of
      ConnectFailed \<Rightarrow> True | Connected _ \<Rightarrow> True | Close _ \<Rightarrow> True | _ \<Rightarrow> False)"



text \<open>
  What a task has appended to the trace of the world it started in, and what an action of
  the uplink must look like when the block has \<open>n\<close> samples: a header is the header of
  line 97 for \<open>n\<close> samples, a payload has \<open>n\<close> samples.
\<close>

definition frame_action :: "nat \<Rightarrow> action \<Rightarrow> bool" where
  "frame_action n a = (case a of
      SendHeader h _ \<Rightarrow> h = \<lparr>magic = PCM_MAGIC, type = 1, len = of_nat (n * 2)\<rparr>
    | SendPayload f _ \<Rightarrow> length f = n
    | _ \<Rightarrow> True)"

definition new_actions :: "world \<Rightarrow> world \<Rightarrow> action list" where
  "new_actions w w' = drop (length (trace w)) (trace w')"

text \<open>The configuration of \<^verbatim>\<open>main.cc\<close>: 24000 Hz, one channel.\<close>

definition mono_24k :: "attempt list \<Rightarrow> sample list option list \<Rightarrow> world" where
  "mono_24k net cap = \<lparr>network = net, input_sample_rate = 24000, input_channels = 1,
     input_enabled = False, output_enabled = False, capture = cap, trace = []\<rparr>"


subsection \<open>The tasks as a whole\<close>









section \<open>Properties\<close>

subsection \<open>The byte image of a header\<close>

lemma native_native: "native e (native e bs) = bs"
  by (cases e) (simp_all add: native_def)

lemma u16_split:
  "or (ucast (ucast (w::16 word) :: byte)) (push_bit 8 (ucast (ucast (drop_bit 8 w) :: byte))) = w"
  by (rule bit_word_eqI) (auto simp: bit_simps)

lemma u32_split:
  "or (ucast (ucast (w::32 word) :: byte))
     (or (push_bit 8 (ucast (ucast (drop_bit 8 w) :: byte)))
       (or (push_bit 16 (ucast (ucast (drop_bit 16 w) :: byte)))
         (push_bit 24 (ucast (ucast (drop_bit 24 w) :: byte))))) = w"
  apply (rule bit_word_eqI)
  apply (auto simp: bit_simps)
  subgoal for n by (cases "24 \<le> n") (simp_all)
  done

lemma bytes_u16_bytes: "bytes_u16 e (u16_bytes e w) = w"
  by (simp add: bytes_u16_def u16_bytes_def native_native u16_split)

lemma bytes_u32_bytes: "bytes_u32 e (u32_bytes e w) = w"
  by (simp add: bytes_u32_def u32_bytes_def native_native u32_split)

lemma u16_bytes_cases: "\<exists>a b. u16_bytes e w = [a, b]"
  by (cases e) (simp_all add: u16_bytes_def native_def)

lemma u32_bytes_cases: "\<exists>a b c d. u32_bytes e w = [a, b, c, d]"
  by (cases e) (simp_all add: u32_bytes_def native_def)

lemma hdr_parse_bytes: "hdr_parse e (hdr_bytes e h) = Some h"
proof -
  obtain a b c d where m: "u32_bytes e (magic h) = [a, b, c, d]"
    using u32_bytes_cases by blast
  obtain x y where l: "u16_bytes e (len h) = [x, y]"
    using u16_bytes_cases by blast
  have "bytes_u32 e [a, b, c, d] = magic h" "bytes_u16 e [x, y] = len h"
    using bytes_u32_bytes [of e "magic h"] bytes_u16_bytes [of e "len h"] by (simp_all add: m l)
  then show ?thesis
    by (simp add: hdr_bytes_def m l)
qed

lemma length_hdr_bytes: "length (hdr_bytes e h) = 7"
  using u32_bytes_cases [of e "magic h"] u16_bytes_cases [of e "len h"]
  by (auto simp: hdr_bytes_def)

lemma unat_len_pcm_header: "unat (len (pcm_header t frame)) = (length frame * 2) mod 65536"
proof -
  have "unat (of_nat (length frame * 2) :: 16 word) = (length frame * 2) mod 2 ^ LENGTH(16)"
    by (rule unat_of_nat)
  then show ?thesis
    by (simp add: pcm_header_def)
qed

subsection \<open>The send loop\<close>

lemma send_fail: "send buf s = (ret, s') \<Longrightarrow> ret \<le> 0 \<Longrightarrow> out s' = out s \<and> fd s' = fd s \<and> rx s' = rx s"
  by (auto simp: send_def split: list.splits if_splits)

lemma send_ok:
  "send buf s = (ret, s') \<Longrightarrow> 0 < ret \<Longrightarrow>
     nat ret \<le> length buf \<and> out s' = out s @ take (nat ret) buf \<and> fd s' = fd s \<and> rx s' = rx s \<and>
     (\<exists>r. tx s = r # tx s' \<and> 0 < r)"
  by (auto simp: send_def split: list.splits if_splits)

lemma send_positive:
  "tx s = r # rs \<Longrightarrow> 0 < r \<Longrightarrow> buf \<noteq> [] \<Longrightarrow> 0 < fst (send buf s) \<and> tx (snd (send buf s)) = rs"
  by (cases buf) (auto simp: send_def)

lemma send_loop_sent:
  "fst (send_loop data sent s) \<Longrightarrow> sent \<le> length data \<Longrightarrow>
   out (snd (send_loop data sent s)) = out s @ drop sent data"
proof (induction data sent s rule: send_loop.induct)
  case (1 data sent s)
  show ?case
  proof (cases "sent < length data")
    case False
    with "1.prems" show ?thesis by simp
  next
    case True
    obtain ret s' where snd: "send (drop sent data) s = (ret, s')"
      by (cases "send (drop sent data) s")
    from "1.prems"(1) True snd have pos: "0 < ret"
      by (auto split: if_splits)
    from send_ok [OF snd pos]
    have k: "nat ret \<le> length data - sent" and o: "out s' = out s @ take (nat ret) (drop sent data)"
      by simp_all
    from "1.prems"(1) True snd pos have ok': "fst (send_loop data (sent + nat ret) s')"
      by simp
    have "out (snd (send_loop data (sent + nat ret) s')) = out s' @ drop (sent + nat ret) data"
      using "1.IH" [OF True snd [symmetric]] pos ok' k True by simp
    moreover have "take (nat ret) (drop sent data) @ drop (sent + nat ret) data = drop sent data"
      by (metis add.commute append_take_drop_id drop_drop)
    ultimately show ?thesis
      using True snd pos o by simp
  qed
qed

lemma send_loop_short:
  "\<not> fst (send_loop data sent s) \<Longrightarrow>
   \<exists>k. sent \<le> k \<and> k < length data \<and>
       out (snd (send_loop data sent s)) = out s @ take (k - sent) (drop sent data)"
proof (induction data sent s rule: send_loop.induct)
  case (1 data sent s)
  from "1.prems" have True: "sent < length data"
    by (auto split: if_splits)
  obtain ret s' where snd: "send (drop sent data) s = (ret, s')"
    by (cases "send (drop sent data) s")
  show ?case
  proof (cases "ret \<le> 0")
    case True
    with \<open>sent < length data\<close> snd send_fail [OF snd True] show ?thesis
      by (intro exI [of _ sent]) simp
  next
    case False
    then have pos: "0 < ret" by simp
    from send_ok [OF snd pos]
    have k: "nat ret \<le> length data - sent" and o: "out s' = out s @ take (nat ret) (drop sent data)"
      by simp_all
    from "1.prems" True snd False have "\<not> fst (send_loop data (sent + nat ret) s')"
      by simp
    from "1.IH" [OF True snd [symmetric] False this]
    obtain j where j: "sent + nat ret \<le> j" "j < length data"
      "out (snd (send_loop data (sent + nat ret) s')) =
         out s' @ take (j - (sent + nat ret)) (drop (sent + nat ret) data)"
      by blast
    have "take (nat ret) (drop sent data) @ take (j - (sent + nat ret)) (drop (sent + nat ret) data)
          = take (j - sent) (drop sent data)"
    proof -
      have "take (j - sent) (drop sent data)
            = take (nat ret + (j - (sent + nat ret))) (drop sent data)"
        using j(1) by simp
      also have "\<dots> = take (nat ret) (drop sent data) @
                       take (j - (sent + nat ret)) (drop (nat ret) (drop sent data))"
        by (rule take_add)
      finally show ?thesis by (simp add: add.commute)
    qed
    with j o True snd False show ?thesis
      by (intro exI [of _ j]) simp
  qed
qed

lemma send_loop_willing:
  "\<forall>r\<in>set (take (length data - sent) (tx s)). 0 < r \<Longrightarrow> length data - sent \<le> length (tx s) \<Longrightarrow>
   fst (send_loop data sent s)"
proof (induction data sent s rule: send_loop.induct)
  case (1 data sent s)
  show ?case
  proof (cases "sent < length data")
    case False
    then show ?thesis by simp
  next
    case True
    with "1.prems"(2) obtain r rs where tx: "tx s = r # rs"
      by (cases "tx s") auto
    from True have "take (length data - sent) (r # rs) = r # take (length data - sent - 1) rs"
      by (cases "length data - sent") auto
    with "1.prems"(1) tx have r: "0 < r" and rs: "\<forall>x\<in>set (take (length data - sent - 1) rs). 0 < x"
      by auto
    obtain ret s' where snd: "send (drop sent data) s = (ret, s')"
      by (cases "send (drop sent data) s")
    from True have ne: "drop sent data \<noteq> []" by simp
    from send_positive [OF tx r ne] snd have pos: "0 < ret" and tx': "tx s' = rs"
      by simp_all
    have "set (take (length data - (sent + nat ret)) rs) \<subseteq> set (take (length data - sent - 1) rs)"
      using pos by (intro set_take_subset_set_take) arith
    with rs have a: "\<forall>x\<in>set (take (length data - (sent + nat ret)) (tx s')). 0 < x"
      using tx' by auto
    have b: "length data - (sent + nat ret) \<le> length (tx s')"
      using "1.prems"(2) tx tx' pos by simp
    from "1.IH" [OF True snd [symmetric] _ a b] pos True snd show ?thesis
      by simp
  qed
qed

lemma send_loop_script:
  "\<exists>used. tx s = used @ tx (snd (send_loop data sent s)) \<and>
     (if fst (send_loop data sent s) then \<forall>r\<in>set used. 0 < r
      else (used \<noteq> [] \<and> last used \<le> 0 \<and> (\<forall>r\<in>set (butlast used). 0 < r)) \<or>
           (tx (snd (send_loop data sent s)) = [] \<and> (\<forall>r\<in>set used. 0 < r)))"
proof (induction data sent s rule: send_loop.induct)
  case (1 data sent s)
  show ?case
  proof (cases "sent < length data")
    case False
    then show ?thesis by simp
  next
    case True
    then have ne: "drop sent data \<noteq> []" by simp
    obtain ret s' where snd: "send (drop sent data) s = (ret, s')"
      by (cases "send (drop sent data) s")
    show ?thesis
    proof (cases "tx s")
      case Nil
      with snd have "ret = - 1" "s' = s"
        by (simp_all add: send_def)
      with True snd Nil show ?thesis
        by simp
    next
      case (Cons r rs)
      show ?thesis
      proof (cases "r \<le> 0")
        case le: True
        with snd Cons have "ret = r" "s' = s\<lparr>tx := rs\<rparr>"
          by (simp_all add: send_def)
        with True snd Cons le show ?thesis
          by (intro exI [of _ "[r]"]) simp
      next
        case pos: False
        then have r: "0 < r" by simp
        from send_positive [OF Cons r ne] snd have ret: "0 < ret" and tx': "tx s' = rs"
          by simp_all
        then have nle: "\<not> ret \<le> 0" by simp
        from "1.IH" [OF True snd [symmetric] nle] obtain used where
          u: "tx s' = used @ tx (snd (send_loop data (sent + nat ret) s'))"
            "if fst (send_loop data (sent + nat ret) s') then \<forall>r\<in>set used. 0 < r
             else (used \<noteq> [] \<and> last used \<le> 0 \<and> (\<forall>r\<in>set (butlast used). 0 < r)) \<or>
                  (tx (snd (send_loop data (sent + nat ret) s')) = [] \<and> (\<forall>r\<in>set used. 0 < r))"
          by blast
        have eq: "send_loop data sent s = send_loop data (sent + nat ret) s'"
          using True snd nle by simp
        have "tx s = (r # used) @ tx (snd (send_loop data sent s))"
          using Cons tx' u(1) by (simp only: eq) simp
        moreover have "if fst (send_loop data sent s) then \<forall>x\<in>set (r # used). 0 < x
             else (r # used \<noteq> [] \<and> last (r # used) \<le> 0 \<and> (\<forall>x\<in>set (butlast (r # used)). 0 < x)) \<or>
                  (tx (snd (send_loop data sent s)) = [] \<and> (\<forall>x\<in>set (r # used). 0 < x))"
          using u(2) r by (simp only: eq) (auto split: if_splits)
        ultimately show ?thesis by blast
      qed
    qed
  qed
qed


lemma send_loop_dead: "tx s = [] \<Longrightarrow> sent < length data \<Longrightarrow> send_loop data sent s = (False, s)"
  by (simp add: send_def)

lemma hdr_parse_Some_length: "hdr_parse e raw = Some h \<Longrightarrow> length raw = 7"
  by (induction e raw rule: hdr_parse.induct) simp_all

lemma hdr_parse_length: "length raw = 7 \<Longrightarrow> \<exists>h. hdr_parse e raw = Some h"
  by (induction e raw rule: hdr_parse.induct) simp_all

subsection \<open>The receive loop\<close>

lemma recv_ret_length: "recv n s = (ret, bs, s') \<Longrightarrow> 0 < ret \<Longrightarrow> length bs = nat ret"
  by (auto simp: recv_def split: list.splits rx_event.splits if_splits)

lemma recv_loop_length:
  "recv_loop n recvd data s = (True, data', s') \<Longrightarrow> recvd \<le> n \<Longrightarrow> length data = recvd \<Longrightarrow>
   length data' = n"
proof (induction n recvd data s rule: recv_loop.induct)
  case (1 n recvd data s)
  show ?case
  proof (cases "recvd < n")
    case False
    with "1.prems" show ?thesis by simp
  next
    case True
    obtain ret bs s1 where r: "recv (n - recvd) s = (ret, bs, s1)"
      by (cases "recv (n - recvd) s")
    from "1.prems"(1) True r have pos: "0 < ret"
      by (auto split: if_splits)
    from recv_ret_length [OF r pos] have l: "length bs = nat ret" .
    have le: "nat ret \<le> n - recvd"
      using r pos by (auto simp: recv_def split: list.splits rx_event.splits if_splits)
    from "1.prems"(1) True r pos have "recv_loop n (recvd + nat ret) (data @ bs) s1 = (True, data', s')"
      by simp
    from "1.IH" [OF True r [symmetric] refl _ this] pos le l "1.prems"(3) True show ?thesis
      by simp
  qed
qed

lemma recv_all_length: "recv_all n s = (True, data, s') \<Longrightarrow> length data = n"
  using recv_loop_length [of n 0 "[]" s data s'] by (simp add: recv_all_def)

lemma recv_loop_short:
  "avail (rx s) < n - recvd \<Longrightarrow> \<not> fst (recv_loop n recvd data s)"
proof (induction n recvd data s rule: recv_loop.induct)
  case (1 n recvd data s)
  from "1.prems" have True: "recvd < n" by simp
  obtain ret bs s1 where r: "recv (n - recvd) s = (ret, bs, s1)"
    by (cases "recv (n - recvd) s")
  show ?case
  proof (cases "ret \<le> 0")
    case True
    with \<open>recvd < n\<close> r show ?thesis by simp
  next
    case False
    with r "1.prems" have "avail (rx s1) < n - (recvd + nat ret)"
      by (auto simp: recv_def split: list.splits rx_event.splits if_splits)
    from "1.IH" [OF True r [symmetric] refl False this] True r False show ?thesis
      by simp
  qed
qed

lemma recv_hdr_parses: "recv_all 7 s = (True, raw, s') \<Longrightarrow> \<exists>h. hdr_parse e raw = Some h"
  using recv_all_length [of 7 s raw s'] hdr_parse_length [of raw e] by simp

lemma recv_all_short: "avail (rx s) < n \<Longrightarrow> \<not> fst (recv_all n s)"
  unfolding recv_all_def using recv_loop_short [of s n 0 "[]"] by simp

lemma recv_loop_dead: "rx s = [] \<Longrightarrow> recvd < n \<Longrightarrow> recv_loop n recvd data s = (False, data, s)"
  by (simp add: recv_def)

lemma recv_loop_fd:
  "fd (snd (snd (recv_loop n recvd data s))) = fd s \<and> tx (snd (snd (recv_loop n recvd data s))) = tx s"
proof (induction n recvd data s rule: recv_loop.induct)
  case (1 n recvd data s)
  show ?case
  proof (cases "recvd < n")
    case False
    then show ?thesis by simp
  next
    case True
    obtain ret bs s1 where r: "recv (n - recvd) s = (ret, bs, s1)"
      by (cases "recv (n - recvd) s")
    have s1: "fd s1 = fd s \<and> tx s1 = tx s"
      using r by (auto simp: recv_def split: list.splits rx_event.splits if_splits)
    show ?thesis
    proof (cases "ret \<le> 0")
      case True
      with \<open>recvd < n\<close> r s1 show ?thesis by simp
    next
      case False
      with "1.IH" [OF True r [symmetric] refl False] s1 True r show ?thesis
        by simp
    qed
  qed
qed

lemma recv_all_fd: "recv_all n s = (ok, data, s') \<Longrightarrow> fd s' = fd s \<and> tx s' = tx s"
  using recv_loop_fd [of n 0 "[]" s] by (simp add: recv_all_def)

lemma log_neq: "log (a # as) w \<noteq> w"
proof
  assume "log (a # as) w = w"
  then have "trace (log (a # as) w) = trace w" by simp
  then show False by (simp add: log_def)
qed

lemma recv_frame_not_invalid: "recv_frame h s w \<noteq> (Closing s', log [InvalidPacket h'] w)"
proof (cases "recv_all (unat (len h)) s")
  case (fields ok data s2)
  then show ?thesis
    using log_neq [of "InvalidPacket h'" "[]" w] by (auto simp: recv_frame_def)
qed

subsection \<open>Runs and loops\<close>

lemma mic_run_Suc: "mic_run (Suc n) st = (case mic_run n st of (p, frame, w) \<Rightarrow> mic_step p frame w)"
proof (induction n arbitrary: st)
  case 0
  show ?case by (cases st) simp
next
  case (Suc n)
  obtain p frame w where st: "st = (p, frame, w)" by (cases st)
  have "mic_run (Suc (Suc n)) st = mic_run (Suc n) (mic_step p frame w)"
    by (simp add: st)
  also have "\<dots> = (case mic_run n (mic_step p frame w) of (p, frame, w) \<Rightarrow> mic_step p frame w)"
    by (rule Suc.IH)
  also have "mic_run n (mic_step p frame w) = mic_run (Suc n) st"
    by (simp add: st)
  finally show ?case .
qed

lemma spk_run_Suc: "spk_run (Suc n) st = (case spk_run n st of (p, w) \<Rightarrow> spk_step p w)"
proof (induction n arbitrary: st)
  case 0
  show ?case by (cases st) simp
next
  case (Suc n)
  obtain p w where st: "st = (p, w)" by (cases st)
  have "spk_run (Suc (Suc n)) st = spk_run (Suc n) (spk_step p w)"
    by (simp add: st)
  also have "\<dots> = (case spk_run n (spk_step p w) of (p, w) \<Rightarrow> spk_step p w)"
    by (rule Suc.IH)
  also have "spk_run n (spk_step p w) = spk_run (Suc n) st"
    by (simp add: st)
  finally show ?case .
qed

lemma length_hello_up: "length hello_up = 8"
  by (simp add: hello_up_def)

lemma length_hello_down: "length hello_down = 10"
  by (simp add: hello_down_def)

lemma send_all_refused: "tx s = r # rs \<Longrightarrow> r \<le> 0 \<Longrightarrow> data \<noteq> [] \<Longrightarrow> send_all data s = (False, s\<lparr>tx := rs\<rparr>)"
  by (simp add: send_all_def send_def)

lemma hello_up_ne: "hello_up \<noteq> []"
  using length_hello_up by auto

lemma hello_down_ne: "hello_down \<noteq> []"
  using length_hello_down by auto

lemma mic_token_refused:
  "tx s = r # rs \<Longrightarrow> r \<le> 0 \<Longrightarrow>
   mic_step (Handshaking s) frame w = (Streaming (s\<lparr>tx := rs\<rparr>), frame, log [Hello False] w)"
  by (simp add: send_all_refused hello_up_ne)

lemma spk_token_refused:
  "tx s = r # rs \<Longrightarrow> r \<le> 0 \<Longrightarrow>
   spk_step (Handshaking s) w = (Streaming (s\<lparr>tx := rs\<rparr>), log [Hello False] w)"
  by (simp add: send_all_refused hello_down_ne)

lemma mic_run_2: "mic_run 2 st = mic_run (Suc (Suc 0)) st"
  by (simp only: numeral_2_eq_2)

lemma mic_run_3: "mic_run 3 st = mic_run (Suc (Suc (Suc 0))) st"
  by (simp only: numeral_3_eq_3)


lemma spk_run_3: "spk_run 3 st = spk_run (Suc (Suc (Suc 0))) st"
  by (simp only: numeral_3_eq_3)

subsection \<open>The uplink loop\<close>

lemma ensure_input_idem: "ensure_input (ensure_input w) = ensure_input w"
  by (simp add: ensure_input_def EnableInput_call_def log_def)

lemma input_enabled_ensure: "input_enabled (ensure_input w)"
  by (simp add: ensure_input_def EnableInput_call_def log_def)

lemma ensure_input_enabled: "input_enabled w \<Longrightarrow> ensure_input w = w"
  by (simp add: ensure_input_def)

lemma mic_step_ensure: "mic_step (Streaming s) frame (ensure_input w) = mic_step (Streaming s) frame w"
  by (simp add: ensure_input_idem)

lemma mic_polls:
  "capture w = replicate K None @ rest \<Longrightarrow> input_enabled w \<Longrightarrow>
   mic_run K (Streaming s, frame, w) =
     (Streaming s, frame, w\<lparr>capture := rest, trace := trace w @ replicate K (Delay 5)\<rparr>)"
proof (induction K arbitrary: w)
  case 0
  then show ?case by simp
next
  case (Suc K)
  let ?w1 = "log [Delay 5] (w\<lparr>capture := replicate K None @ rest\<rparr>)"
  have step: "mic_step (Streaming s) frame w = (Streaming s, frame, ?w1)"
    using Suc.prems by (simp add: ensure_input_def InputData_def)
  have "mic_run K (Streaming s, frame, ?w1) =
      (Streaming s, frame, ?w1\<lparr>capture := rest, trace := trace ?w1 @ replicate K (Delay 5)\<rparr>)"
    using Suc.prems by (intro Suc.IH) (simp_all add: log_def)
  with step show ?case
    by (simp add: log_def replicate_app_Cons_same)
qed

lemma mic_run_ensure:
  "0 < K \<Longrightarrow> mic_run K (Streaming s, frame, w) = mic_run K (Streaming s, frame, ensure_input w)"
  by (cases K) (simp_all add: ensure_input_idem)

lemma send_frame_trace:
  "\<exists>acts. trace (snd (snd (send_frame s frame w))) = trace w @ acts \<and>
     (\<forall>a\<in>set acts. \<not> connection_action a)"
  by (auto simp: send_frame_def log_def connection_action_def split: prod.splits)

lemma send_frame_pc:
  "(fst (send_all (hdr_bytes native_order (pcm_header 1 frame)) s) \<and>
    fst (send_all (frame_bytes native_order frame)
          (snd (send_all (hdr_bytes native_order (pcm_header 1 frame)) s))) \<longrightarrow>
      (\<exists>s'. fst (send_frame s frame w) = Streaming s')) \<and>
   (\<not> (fst (send_all (hdr_bytes native_order (pcm_header 1 frame)) s) \<and>
    fst (send_all (frame_bytes native_order frame)
          (snd (send_all (hdr_bytes native_order (pcm_header 1 frame)) s)))) \<longrightarrow>
      (\<exists>s'. fst (send_frame s frame w) = Closing s'))"
  by (auto simp: send_frame_def split: prod.splits)

subsection \<open>Reconnecting\<close>






lemma hdr_bytes_ne: "hdr_bytes e h \<noteq> []"
  using length_hdr_bytes [of e h] by auto



subsection \<open>The block size and the header of the uplink\<close>

lemma length_InputData: "InputData frame w = (got, frame', w') \<Longrightarrow> length frame' = length frame"
  by (auto simp: InputData_def split: list.splits option.splits)

lemma trace_InputData: "InputData frame w = (got, frame', w') \<Longrightarrow> trace w' = trace w"
  by (auto simp: InputData_def split: list.splits option.splits)

lemma trace_ensure_input:
  "\<exists>acts. trace (ensure_input w) = trace w @ acts \<and> (\<forall>a\<in>set acts. frame_action n a)"
  by (simp add: ensure_input_def EnableInput_call_def log_def frame_action_def)

lemma send_frame_frame:
  "send_frame s frame w = (p', frame', w') \<Longrightarrow>
   frame' = frame \<and> (\<exists>acts. trace w' = trace w @ acts \<and> (\<forall>a\<in>set acts. frame_action (length frame) a))"
  by (auto simp: send_frame_def log_def frame_action_def pcm_header_def split: prod.splits if_splits)

lemma connect_step_trace:
  "connect_step w = (p', w') \<Longrightarrow> \<exists>acts. trace w' = trace w @ acts \<and> (\<forall>a\<in>set acts. frame_action n a)"
  by (auto simp: connect_step_def log_def frame_action_def split: list.splits if_splits)

lemma mic_step_frame:
  assumes "mic_step p frame w = (p', frame', w')"
  shows "length frame' = length frame \<and>
    (\<exists>acts. trace w' = trace w @ acts \<and> (\<forall>a\<in>set acts. frame_action (length frame) a))"
proof (cases p)
  case Connecting
  with assms connect_step_trace [of w] show ?thesis
    by (auto split: prod.splits)
next
  case (Handshaking s)
  with assms show ?thesis
    by (auto simp: log_def frame_action_def split: prod.splits)
next
  case (Streaming s)
  obtain got f1 w1 where i: "InputData frame (ensure_input w) = (got, f1, w1)"
    by (cases "InputData frame (ensure_input w)")
  have l1: "length f1 = length frame"
    using length_InputData [OF i] .
  obtain a1 where a1: "trace w1 = trace w @ a1" "\<forall>a\<in>set a1. frame_action (length frame) a"
    using trace_InputData [OF i] trace_ensure_input [of w "length frame"] by auto
  show ?thesis
  proof (cases got)
    case False
    with assms Streaming i have "frame' = f1" "w' = log [Delay 5] w1"
      by simp_all
    with l1 a1 show ?thesis
      by (simp add: log_def frame_action_def)
  next
    case True
    with assms Streaming i have "send_frame s f1 w1 = (p', frame', w')"
      by simp
    from send_frame_frame [OF this] obtain a2 where
      "frame' = f1" "trace w' = trace w1 @ a2" "\<forall>a\<in>set a2. frame_action (length f1) a"
      by blast
    with l1 a1 show ?thesis
      by (intro conjI exI [of _ "a1 @ a2"]) auto
  qed
next
  case (Closing s)
  with assms show ?thesis
    by (auto simp: close_step_def log_def frame_action_def)
qed

lemma mic_run_frame:
  "mic_run n (p, frame, w) = (p', frame', w') \<Longrightarrow>
   length frame' = length frame \<and>
   (\<exists>acts. trace w' = trace w @ acts \<and> (\<forall>a\<in>set acts. frame_action (length frame) a))"
proof (induction n arbitrary: p frame w)
  case 0
  then show ?case by simp
next
  case (Suc n)
  obtain p1 f1 w1 where s: "mic_step p frame w = (p1, f1, w1)"
    by (cases "mic_step p frame w")
  from mic_step_frame [OF s] obtain a1 where
    1: "length f1 = length frame" "trace w1 = trace w @ a1" "\<forall>a\<in>set a1. frame_action (length frame) a"
    by blast
  from Suc.prems s have "mic_run n (p1, f1, w1) = (p', frame', w')"
    by simp
  from Suc.IH [OF this] obtain a2 where
    2: "length frame' = length f1" "trace w' = trace w1 @ a2" "\<forall>a\<in>set a2. frame_action (length f1) a"
    by blast
  from 1 2 show ?case
    by (intro conjI exI [of _ "a1 @ a2"]) auto
qed

lemma mic_task_frame:
  assumes "mic_run n (mic_start w) = (p', frame', w')"
  shows "length frame' = frame_samples w * input_channels w"
    and "\<forall>a\<in>set (new_actions w w'). frame_action (frame_samples w * input_channels w) a"
proof -
  from assms have "mic_run n (Connecting, replicate (frame_samples w * input_channels w) 0, w) = (p', frame', w')"
    by (simp add: mic_start_def)
  from mic_run_frame [OF this] obtain acts where
    a: "length frame' = frame_samples w * input_channels w" "trace w' = trace w @ acts"
      "\<forall>a\<in>set acts. frame_action (frame_samples w * input_channels w) a"
    by auto
  show "length frame' = frame_samples w * input_channels w" by (rule a(1))
  show "\<forall>a\<in>set (new_actions w w'). frame_action (frame_samples w * input_channels w) a"
    using a(2,3) by (simp add: new_actions_def)
qed

lemma length_frame_bytes: "length (frame_bytes e frame) = 2 * length frame"
proof (induction frame)
  case Nil
  show ?case by (simp add: frame_bytes_def)
next
  case (Cons x xs)
  obtain a b where "u16_bytes e x = [a, b]"
    using u16_bytes_cases by blast
  with Cons show ?case by (simp add: frame_bytes_def)
qed

lemma unat_len_word: "unat (of_nat (n * 2) :: 16 word) = 2 * (n mod 32768)"
proof -
  have "unat (of_nat (n * 2) :: 16 word) = (n * 2) mod 2 ^ LENGTH(16)"
    by (rule unat_of_nat)
  also have "\<dots> = (2 * n) mod (2 * 32768)"
    by (simp add: mult.commute)
  also have "\<dots> = 2 * (n mod 32768)"
    by (rule mult_mod_right [symmetric])
  finally show ?thesis .
qed

lemma len_word_zero: "(of_nat (n * 2) :: 16 word) = 0 \<longleftrightarrow> 32768 dvd n"
proof -
  have "(of_nat (n * 2) :: 16 word) = 0 \<longleftrightarrow> unat (of_nat (n * 2) :: 16 word) = 0"
    by (simp only: unat_eq_0)
  also have "\<dots> \<longleftrightarrow> n mod 32768 = 0"
    by (simp only: unat_len_word) simp
  also have "\<dots> \<longleftrightarrow> 32768 dvd n"
    by (simp only: dvd_eq_mod_eq_0)
  finally show ?thesis .
qed

lemma len_word_even: "even (unat (of_nat (n * 2) :: 16 word))"
  by (simp only: unat_len_word) simp

lemma len_word_small: "n < 32768 \<Longrightarrow> unat (of_nat (n * 2) :: 16 word) = n * 2"
  by (simp only: unat_len_word) simp

lemma frame_action_payload: "frame_action n (SendPayload f ok) = (length f = n)"
  by (simp add: frame_action_def)

lemma frame_action_header:
  "frame_action n (SendHeader h ok) = (h = \<lparr>magic = PCM_MAGIC, type = 1, len = of_nat (n * 2)\<rparr>)"
  by (simp add: frame_action_def)

subsection \<open>Two complete runs\<close>

lemma send_all_taken:
  "tx s = r # rs \<Longrightarrow> int (length data) \<le> r \<Longrightarrow> data \<noteq> [] \<Longrightarrow>
   send_all data s = (True, s\<lparr>tx := rs, out := out s @ data\<rparr>)"
proof -
  assume t: "tx s = r # rs" and le: "int (length data) \<le> r" and ne: "data \<noteq> []"
  from le have m: "min (nat r) (length data) = length data"
    by simp
  from le ne have r0: "\<not> r \<le> 0"
    by (cases data) auto
  have "send (drop 0 data) s = (int (length data), s\<lparr>tx := rs, out := out s @ data\<rparr>)"
    using t r0 m by (simp add: send_def)
  with ne show ?thesis
    by (simp add: send_all_def)
qed

lemma send_all_empty: "send_all [] s = (True, s)"
  by (simp add: send_all_def)

lemma mono_run:
  "mic_run 3 (mic_start (mono_24k [server [8, 7, 960] []] [Some (replicate 480 7)])) =
     (Streaming \<lparr>fd = 3, tx = [], rx = [],
        out = hello_up @ hdr_bytes native_order \<lparr>magic = PCM_MAGIC, type = 1, len = 960\<rparr> @
              frame_bytes native_order (replicate 480 7)\<rparr>,
      replicate 480 7,
      (mono_24k [] [])\<lparr>input_enabled := True,
        trace := [Connected 3, Hello True, EnableInput True,
          SendHeader \<lparr>magic = PCM_MAGIC, type = 1, len = 960\<rparr> True,
          SendPayload (replicate 480 7) True]\<rparr>)"
proof -
  let ?W = "mono_24k [server [8, 7, 960] []] [Some (replicate 480 7)]"
  let ?Z = "replicate 480 (0::sample)"
  let ?F = "replicate 480 (7::sample)"
  let ?H = "\<lparr>magic = PCM_MAGIC, type = 1, len = 960\<rparr>"
  let ?S0 = "\<lparr>fd = 3, tx = [8, 7, 960], rx = [], out = []\<rparr>"
  let ?S1 = "\<lparr>fd = 3, tx = [7, 960], rx = [], out = hello_up\<rparr>"
  let ?S2 = "\<lparr>fd = 3, tx = [960], rx = [], out = hello_up @ hdr_bytes native_order ?H\<rparr>"
  let ?S3 = "\<lparr>fd = 3, tx = [], rx = [],
      out = hello_up @ hdr_bytes native_order ?H @ frame_bytes native_order ?F\<rparr>"
  let ?W1 = "(mono_24k [] [Some ?F])\<lparr>trace := [Connected 3]\<rparr>"
  let ?W2 = "(mono_24k [] [Some ?F])\<lparr>trace := [Connected 3, Hello True]\<rparr>"
  let ?W3 = "(mono_24k [] [])\<lparr>input_enabled := True,
        trace := [Connected 3, Hello True, EnableInput True, SendHeader ?H True, SendPayload ?F True]\<rparr>"
  have start: "mic_start ?W = (Connecting, ?Z, ?W)"
    by (simp add: mic_start_def frame_samples_def mono_24k_def)
  have s1: "mic_step Connecting ?Z ?W = (Handshaking ?S0, ?Z, ?W1)"
    by (simp add: connect_step_def connect_to_def server_def mono_24k_def log_def)
  have "send_all hello_up ?S0 = (True, ?S1)"
    by (subst send_all_taken [of _ 8 "[7, 960]"]) (simp_all add: length_hello_up hello_up_ne)
  then have s2: "mic_step (Handshaking ?S0) ?Z ?W1 = (Streaming ?S1, ?Z, ?W2)"
    by (simp add: log_def mono_24k_def)
  have hdr: "pcm_header 1 ?F = ?H"
    by (simp add: pcm_header_def)
  have h: "send_all (hdr_bytes native_order ?H) ?S1 = (True, ?S2)"
    by (subst send_all_taken [of _ 7 "[960]"]) (simp_all add: length_hdr_bytes hdr_bytes_ne)
  have ne: "frame_bytes native_order ?F \<noteq> []"
    using length_frame_bytes [of native_order ?F] by auto
  have p: "send_all (frame_bytes native_order ?F) ?S2 = (True, ?S3)"
    by (subst send_all_taken [of _ 960 "[]"]) (simp_all add: length_frame_bytes ne)
  have i: "InputData ?Z (ensure_input ?W2) =
      (True, ?F, (mono_24k [] [])\<lparr>input_enabled := True, trace := [Connected 3, Hello True, EnableInput True]\<rparr>)"
    by (simp add: InputData_def ensure_input_def EnableInput_call_def log_def mono_24k_def)
  have s3: "mic_step (Streaming ?S1) ?Z ?W2 = (Streaming ?S3, ?F, ?W3)"
    by (simp only: mic_step.simps i prod.case send_frame_def hdr h p)
      (simp add: log_def mono_24k_def)
  show ?thesis
    by (simp only: mic_run_3 start mic_run.simps s1 s2 s3)
qed

lemma small_run:
  "mic_run 3 (mic_start ((quiet_world 50 2)\<lparr>network := [server [8, 7, 4] []],
      capture := [Some [5, 6]]\<rparr>)) =
     (Streaming \<lparr>fd = 3, tx = [], rx = [],
        out = hello_up @ [0x50, 0x43, 0x4D, 0x30, 1, 4, 0, 5, 0, 6, 0]\<rparr>,
      [5, 6],
      (quiet_world 50 2)\<lparr>input_enabled := True,
        trace := [Connected 3, Hello True, EnableInput True,
          SendHeader \<lparr>magic = PCM_MAGIC, type = 1, len = 4\<rparr> True, SendPayload [5, 6] True]\<rparr>)"
proof -
  let ?w0 = "(quiet_world 50 2)\<lparr>network := [server [8, 7, 4] []], capture := [Some [5, 6]]\<rparr>"
  let ?w1 = "(quiet_world 50 2)\<lparr>capture := [Some [5, 6]], trace := [Connected 3]\<rparr>"
  let ?w2 = "(quiet_world 50 2)\<lparr>capture := [Some [5, 6]], trace := [Connected 3, Hello True]\<rparr>"
  let ?S0 = "\<lparr>fd = 3, tx = [8, 7, 4], rx = [], out = []\<rparr>"
  let ?S1 = "\<lparr>fd = 3, tx = [7, 4], rx = [], out = hello_up\<rparr>"
  have start: "mic_start ?w0 = (Connecting, [0, 0], ?w0)"
    by (simp add: mic_start_def frame_samples_def quiet_world_def numeral_2_eq_2)
  have s1: "mic_step Connecting [0, 0] ?w0 = (Handshaking ?S0, [0, 0], ?w1)"
    by (simp add: connect_step_def connect_to_def server_def quiet_world_def log_def)
  have "send_all hello_up ?S0 = (True, ?S1)"
    by (subst send_all_taken [of _ 8 "[7, 4]"]) (simp_all add: length_hello_up hello_up_ne)
  then have s2: "mic_step (Handshaking ?S0) [0, 0] ?w1 = (Streaming ?S1, [0, 0], ?w2)"
    by (simp add: log_def quiet_world_def)
  have s3: "mic_step (Streaming ?S1) [0, 0] ?w2 =
     (Streaming \<lparr>fd = 3, tx = [], rx = [],
        out = hello_up @ [0x50, 0x43, 0x4D, 0x30, 1, 4, 0, 5, 0, 6, 0]\<rparr>,
      [5, 6],
      (quiet_world 50 2)\<lparr>input_enabled := True,
        trace := [Connected 3, Hello True, EnableInput True,
          SendHeader \<lparr>magic = PCM_MAGIC, type = 1, len = 4\<rparr> True, SendPayload [5, 6] True]\<rparr>)"
    by (simp add: quiet_world_def ensure_input_def EnableInput_call_def InputData_def log_def
        send_frame_def send_all_def send_def hdr_bytes_def native_order_def native_def
        u32_bytes_def u16_bytes_def frame_bytes_def pcm_header_def PCM_MAGIC_def length_hello_up)
  show ?thesis
    by (simp only: mic_run_3 start mic_run.simps s1 s2 s3)
qed

lemma mono_new_actions:
  "new_actions (mono_24k [server [8, 7, 960] []] [Some (replicate 480 7)])
     ((mono_24k [] [])\<lparr>input_enabled := True,
        trace := [Connected 3, Hello True, EnableInput True,
          SendHeader \<lparr>magic = PCM_MAGIC, type = 1, len = 960\<rparr> True,
          SendPayload (replicate 480 7) True]\<rparr>) =
   [Connected 3, Hello True, EnableInput True,
    SendHeader \<lparr>magic = PCM_MAGIC, type = 1, len = 960\<rparr> True,
    SendPayload (replicate 480 7) True]"
  by (simp add: new_actions_def mono_24k_def)

lemma small_new_actions:
  "new_actions ((quiet_world 50 2)\<lparr>network := [server [8, 7, 4] []], capture := [Some [5, 6]]\<rparr>)
     ((quiet_world 50 2)\<lparr>input_enabled := True,
        trace := [Connected 3, Hello True, EnableInput True,
          SendHeader \<lparr>magic = PCM_MAGIC, type = 1, len = 4\<rparr> True, SendPayload [5, 6] True]\<rparr>) =
   [Connected 3, Hello True, EnableInput True,
    SendHeader \<lparr>magic = PCM_MAGIC, type = 1, len = 4\<rparr> True, SendPayload [5, 6] True]"
  by (simp add: new_actions_def quiet_world_def)

subsection \<open>The tasks as a whole\<close>


























subsection \<open>The claims\<close>

text \<open>
  C1 (as amended). For every direction tag (in particular 1 and 2), either byte order and
  every payload of fewer than 65536 bytes (at most 32767 samples), parsing the seven bytes
  of the header built for that tag and payload gives that header back: its tag is the
  original tag and its declared length is the byte length of the payload.
\<close>

theorem header_roundtrip:
  "length frame * 2 < 65536 \<Longrightarrow>
   hdr_parse e (hdr_bytes e (pcm_header t frame)) = Some (pcm_header t frame) \<and>
   type (pcm_header t frame) = t \<and>
   unat (len (pcm_header t frame)) = length frame * 2"
  by (simp add: hdr_parse_bytes unat_len_pcm_header) (simp add: pcm_header_def)

theorem header_roundtrip_witness:
  "length [7::sample, 9] * 2 < 65536 \<and>
   hdr_parse LittleEndian (hdr_bytes LittleEndian (pcm_header 2 [7, 9])) = Some (pcm_header 2 [7, 9]) \<and>
   type (pcm_header 2 [7, 9]) = 2 \<and>
   unat (len (pcm_header 2 [7, 9])) = 4"
  using header_roundtrip [of "[7, 9]" LittleEndian 2] by simp

text \<open>
  C1 as stated fails for a payload of 32768 samples: its 65536 bytes are declared as 0 by
  the 16-bit length field, and 0 is what parsing gives back.
\<close>

theorem header_roundtrip_counterexample:
  "hdr_parse LittleEndian (hdr_bytes LittleEndian (pcm_header 1 (replicate 32768 0))) =
     Some \<lparr>magic = PCM_MAGIC, type = 1, len = 0\<rparr> \<and>
   length (replicate 32768 (0::sample)) * 2 = 65536"
  by (simp add: hdr_parse_bytes pcm_header_def)

text \<open>
  C2 (as amended). When the downlink has received the seven bytes of a header, it logs
  "Invalid packet" and goes to \<open>Closing\<close> exactly when the magic field differs from
  \<open>PCM_MAGIC\<close>, or the direction tag is not 2 (the downlink tag), or the declared length
  is zero. A header with the right magic, tag 2 and a non-zero length is accepted: the
  payload is read next. The rejection is not fatal: the step after it closes the socket,
  waits 1000 ms and is back at \<open>Connecting\<close>.
\<close>

theorem invalid_frame_downlink:
  "recv_all 7 s = (True, raw, s') \<Longrightarrow> hdr_parse native_order raw = Some h \<Longrightarrow>
   ((spk_step (Streaming s) w = (Closing s', log [InvalidPacket h] w)) =
      (magic h \<noteq> PCM_MAGIC \<or> type h \<noteq> 2 \<or> len h = 0)) \<and>
   (magic h = PCM_MAGIC \<and> type h = 2 \<and> len h \<noteq> 0 \<longrightarrow>
      spk_step (Streaming s) w = recv_frame h s' w) \<and>
   (magic h \<noteq> PCM_MAGIC \<or> type h \<noteq> 2 \<or> len h = 0 \<longrightarrow>
      spk_run 2 (Streaming s, w) =
        (Connecting, log [InvalidPacket h, Close (fd s), Delay 1000] w))"
proof -
  assume r: "recv_all 7 s = (True, raw, s')" and p: "hdr_parse native_order raw = Some h"
  have fd: "fd s' = fd s" using recv_all_fd [OF r] by simp
  show ?thesis
  proof (cases "invalid_packet h")
    case True
    then have c: "magic h \<noteq> PCM_MAGIC \<or> type h \<noteq> 2 \<or> len h = 0"
      by (simp add: invalid_packet_def)
    have step: "spk_step (Streaming s) w = (Closing s', log [InvalidPacket h] w)"
      using True r p by simp
    have "spk_run 2 (Streaming s, w) = spk_step (Closing s') (log [InvalidPacket h] w)"
      using step by (simp add: numeral_2_eq_2)
    then have run: "spk_run 2 (Streaming s, w) =
        (Connecting, log [InvalidPacket h, Close (fd s), Delay 1000] w)"
      using fd by (simp add: close_step_def log_def)
    from c step run show ?thesis
      by blast
  next
    case False
    then have c: "magic h = PCM_MAGIC \<and> type h = 2 \<and> len h \<noteq> 0"
      by (simp add: invalid_packet_def)
    have step: "spk_step (Streaming s) w = recv_frame h s' w"
      using False r p by simp
    from c step recv_frame_not_invalid [of h s' w s' h] show ?thesis
      by (auto simp del: spk_step.simps)
  qed
qed

theorem invalid_frame_downlink_witness:
  "spk_step (Streaming (test_sock [] [RxBytes [0x50, 0x43, 0x4D, 0x30, 1, 0xC0, 3]])) (quiet_world 24000 1) =
     (Closing (test_sock [] []),
      log [InvalidPacket \<lparr>magic = PCM_MAGIC, type = 1, len = 960\<rparr>] (quiet_world 24000 1)) \<and>
   spk_run 2 (Streaming (test_sock [] [RxBytes [0x50, 0x43, 0x4D, 0x30, 1, 0xC0, 3]]), quiet_world 24000 1) =
     (Connecting,
      log [InvalidPacket \<lparr>magic = PCM_MAGIC, type = 1, len = 960\<rparr>, Close 3, Delay 1000]
        (quiet_world 24000 1))"
proof -
  have r: "recv_all 7 (test_sock [] [RxBytes [0x50, 0x43, 0x4D, 0x30, 1, 0xC0, 3]]) =
      (True, [0x50, 0x43, 0x4D, 0x30, 1, 0xC0, 3], test_sock [] [])"
    by (simp add: recv_all_def recv_def test_sock_def)
  have p: "hdr_parse native_order [0x50, 0x43, 0x4D, 0x30, 1, 0xC0, 3] =
      Some \<lparr>magic = PCM_MAGIC, type = 1, len = 960\<rparr>"
    by (simp add: native_order_def bytes_u32_def bytes_u16_def native_def PCM_MAGIC_def)
  show ?thesis
    using invalid_frame_downlink [OF r p, of "quiet_world 24000 1"]
    by (simp add: test_sock_def)
qed

text \<open>
  C2 as stated fails for the header with the right magic, the known direction tag 1 (the
  uplink tag) and the non-zero length 960: line 125 rejects it.
\<close>

theorem invalid_frame_downlink_counterexample:
  "invalid_packet \<lparr>magic = PCM_MAGIC, type = 1, len = 960\<rparr> \<and>
   magic \<lparr>magic = PCM_MAGIC, type = 1, len = 960\<rparr> = PCM_MAGIC \<and>
   type \<lparr>magic = PCM_MAGIC, type = 1, len = 960\<rparr> \<in> {1, 2} \<and>
   len \<lparr>magic = PCM_MAGIC, type = 1, len = 960\<rparr> \<noteq> 0"
  by (simp add: invalid_packet_def)

text \<open>
  C3 (the code at the failing input). The stream delivers a header with the right magic,
  tag 2 and the odd declared length 3, then three payload bytes. No parity test exists:
  the buffer has \<open>3 div 2 = 1\<close> sample (two bytes), \<^verbatim>\<open>recv_all\<close> writes three bytes to
  it, one sample is handed to the codec and the downlink stays at \<open>Streaming\<close>.
\<close>

theorem odd_length_frame_processed:
  "spk_step
     (Streaming (test_sock [] [RxBytes [0x50, 0x43, 0x4D, 0x30, 2, 3, 0, 1, 2, 3]]))
     (quiet_world 24000 1) =
   (Streaming (test_sock [] []),
    log [WriteOutOfBounds 3 2, EnableOutput True, OutputData [0x0201]]
      ((quiet_world 24000 1)\<lparr>output_enabled := True\<rparr>))"
  by (simp add: test_sock_def quiet_world_def native_order_def native_def
      PCM_MAGIC_def recv_all_def recv_def bytes_u32_def bytes_u16_def invalid_packet_def recv_frame_def
      ensure_output_def EnableOutput_call_def OutputData_call_def log_def)

text \<open>
  C5. After a header that passes the test of line 125, if the stream delivers fewer bytes
  than the header declares before a \<^verbatim>\<open>recv\<close> returns zero or an error, the downlink
  goes to \<open>Closing\<close> with the world as it was (nothing handed to the codec, the output
  not enabled, nothing logged), and the step after closes the socket and is back at
  \<open>Connecting\<close>.
\<close>

theorem short_payload_closes:
  "recv_all 7 s = (True, raw, s1) \<Longrightarrow> hdr_parse native_order raw = Some h \<Longrightarrow>
   \<not> invalid_packet h \<Longrightarrow> avail (rx s1) < unat (len h) \<Longrightarrow>
   spk_step (Streaming s) w = (Closing (snd (snd (recv_all (unat (len h)) s1))), w) \<and>
   spk_run 2 (Streaming s, w) = (Connecting, log [Close (fd s), Delay 1000] w)"
proof -
  assume r: "recv_all 7 s = (True, raw, s1)" and p: "hdr_parse native_order raw = Some h"
    and v: "\<not> invalid_packet h" and a: "avail (rx s1) < unat (len h)"
  obtain ok data s2 where r2: "recv_all (unat (len h)) s1 = (ok, data, s2)"
    by (cases "recv_all (unat (len h)) s1")
  from recv_all_short [OF a] r2 have ok: "\<not> ok" by simp
  have fd: "fd s2 = fd s"
    using recv_all_fd [OF r] recv_all_fd [OF r2] by simp
  have step: "spk_step (Streaming s) w = (Closing s2, w)"
    using r p v r2 ok by (simp add: recv_frame_def)
  have "spk_run 2 (Streaming s, w) = spk_step (Closing s2) w"
    using step by (simp add: numeral_2_eq_2)
  with step r2 fd show ?thesis
    by (simp add: close_step_def)
qed

text \<open>The scenario of the specification: 10 bytes declared, 6 delivered, then end of stream.\<close>

theorem short_payload_closes_witness:
  "spk_step
     (Streaming (test_sock [] [RxBytes [0x50, 0x43, 0x4D, 0x30, 2, 10, 0], RxBytes [1, 2, 3, 4, 5, 6]]))
     (quiet_world 24000 1) =
     (Closing (test_sock [] []), quiet_world 24000 1) \<and>
   spk_run 2
     (Streaming (test_sock [] [RxBytes [0x50, 0x43, 0x4D, 0x30, 2, 10, 0], RxBytes [1, 2, 3, 4, 5, 6]]),
      quiet_world 24000 1) =
     (Connecting, log [Close 3, Delay 1000] (quiet_world 24000 1))"
proof -
  let ?s = "test_sock [] [RxBytes [0x50, 0x43, 0x4D, 0x30, 2, 10, 0], RxBytes [1, 2, 3, 4, 5, 6]]"
  let ?h = "\<lparr>magic = PCM_MAGIC, type = 2, len = 10\<rparr>"
  have r: "recv_all 7 ?s = (True, [0x50, 0x43, 0x4D, 0x30, 2, 10, 0], test_sock [] [RxBytes [1, 2, 3, 4, 5, 6]])"
    by (simp add: recv_all_def recv_def test_sock_def)
  have p: "hdr_parse native_order [0x50, 0x43, 0x4D, 0x30, 2, 10, 0] = Some ?h"
    by (simp add: native_order_def bytes_u32_def bytes_u16_def native_def PCM_MAGIC_def)
  have v: "\<not> invalid_packet ?h"
    by (simp add: invalid_packet_def)
  have a: "avail (rx (test_sock [] [RxBytes [1, 2, 3, 4, 5, 6]])) < unat (len ?h)"
    by (simp add: test_sock_def)
  have "recv_all (unat (len ?h)) (test_sock [] [RxBytes [1, 2, 3, 4, 5, 6]]) =
      (False, [1, 2, 3, 4, 5, 6], test_sock [] [])"
    by (simp add: recv_all_def recv_def test_sock_def)
  with short_payload_closes [OF r p v a, of "quiet_world 24000 1"] show ?thesis
    by (simp add: test_sock_def)
qed

text \<open>
  C4 (the code at the failing input). The connection is made, the first \<^verbatim>\<open>send\<close> (the
  token) returns \<open>-1\<close>, and the transport takes everything after that. The result of
  the token's \<^verbatim>\<open>send_all\<close> is not tested: the uplink is at \<open>Streaming\<close> after two steps,
  on the same socket, and the third step writes a whole frame to it. Nothing is closed.
  The downlink does the same: after the failed token send it reads a frame from the
  socket and hands it to the codec.
\<close>

theorem token_send_failure_ignored:
  "mic_run 2 (mic_start ((quiet_world 50 2)\<lparr>network := [server [- 1, 7, 4] []],
      capture := [Some [5, 6]]\<rparr>)) =
     (Streaming \<lparr>fd = 3, tx = [7, 4], rx = [], out = []\<rparr>, [0, 0],
      (quiet_world 50 2)\<lparr>capture := [Some [5, 6]], trace := [Connected 3, Hello False]\<rparr>) \<and>
   mic_run 3 (mic_start ((quiet_world 50 2)\<lparr>network := [server [- 1, 7, 4] []],
      capture := [Some [5, 6]]\<rparr>)) =
     (Streaming \<lparr>fd = 3, tx = [], rx = [], out = [0x50, 0x43, 0x4D, 0x30, 1, 4, 0, 5, 0, 6, 0]\<rparr>,
      [5, 6],
      (quiet_world 50 2)\<lparr>input_enabled := True,
        trace := [Connected 3, Hello False, EnableInput True,
          SendHeader \<lparr>magic = PCM_MAGIC, type = 1, len = 4\<rparr> True, SendPayload [5, 6] True]\<rparr>) \<and>
   spk_run 3 (Connecting, (quiet_world 50 2)\<lparr>network :=
      [server [- 1] [RxBytes [0x50, 0x43, 0x4D, 0x30, 2, 2, 0, 9, 0]]]\<rparr>) =
     (Streaming \<lparr>fd = 3, tx = [], rx = [], out = []\<rparr>,
      (quiet_world 50 2)\<lparr>output_enabled := True,
        trace := [Connected 3, Hello False, EnableOutput True, OutputData [9]]\<rparr>)"
proof -
  let ?w0 = "(quiet_world 50 2)\<lparr>network := [server [- 1, 7, 4] []], capture := [Some [5, 6]]\<rparr>"
  let ?w1 = "(quiet_world 50 2)\<lparr>capture := [Some [5, 6]], trace := [Connected 3]\<rparr>"
  let ?w2 = "(quiet_world 50 2)\<lparr>capture := [Some [5, 6]], trace := [Connected 3, Hello False]\<rparr>"
  have start: "mic_start ?w0 = (Connecting, [0, 0], ?w0)"
    by (simp add: mic_start_def frame_samples_def quiet_world_def numeral_2_eq_2)
  have s1: "mic_step Connecting [0, 0] ?w0 =
      (Handshaking \<lparr>fd = 3, tx = [- 1, 7, 4], rx = [], out = []\<rparr>, [0, 0], ?w1)"
    by (simp add: connect_step_def connect_to_def server_def quiet_world_def log_def)
  have s2: "mic_step (Handshaking \<lparr>fd = 3, tx = [- 1, 7, 4], rx = [], out = []\<rparr>) [0, 0] ?w1 =
      (Streaming \<lparr>fd = 3, tx = [7, 4], rx = [], out = []\<rparr>, [0, 0], ?w2)"
    by (subst mic_token_refused [of _ "- 1" "[7, 4]"]) (simp_all add: log_def quiet_world_def)
  have s3: "mic_step (Streaming \<lparr>fd = 3, tx = [7, 4], rx = [], out = []\<rparr>) [0, 0] ?w2 =
     (Streaming \<lparr>fd = 3, tx = [], rx = [], out = [0x50, 0x43, 0x4D, 0x30, 1, 4, 0, 5, 0, 6, 0]\<rparr>,
      [5, 6],
      (quiet_world 50 2)\<lparr>input_enabled := True,
        trace := [Connected 3, Hello False, EnableInput True,
          SendHeader \<lparr>magic = PCM_MAGIC, type = 1, len = 4\<rparr> True, SendPayload [5, 6] True]\<rparr>)"
    by (simp add: quiet_world_def ensure_input_def EnableInput_call_def InputData_def log_def
        send_frame_def send_all_def send_def hdr_bytes_def native_order_def native_def
        u32_bytes_def u16_bytes_def frame_bytes_def pcm_header_def PCM_MAGIC_def)
  have r2: "mic_run 2 (mic_start ?w0) =
      (Streaming \<lparr>fd = 3, tx = [7, 4], rx = [], out = []\<rparr>, [0, 0], ?w2)"
    by (simp only: mic_run_2 start mic_run.simps s1 s2)
  have r3: "mic_run 3 (mic_start ?w0) =
     (Streaming \<lparr>fd = 3, tx = [], rx = [], out = [0x50, 0x43, 0x4D, 0x30, 1, 4, 0, 5, 0, 6, 0]\<rparr>,
      [5, 6],
      (quiet_world 50 2)\<lparr>input_enabled := True,
        trace := [Connected 3, Hello False, EnableInput True,
          SendHeader \<lparr>magic = PCM_MAGIC, type = 1, len = 4\<rparr> True, SendPayload [5, 6] True]\<rparr>)"
    by (simp only: mic_run_3 start mic_run.simps s1 s2 s3)
  let ?q = "[RxBytes [0x50, 0x43, 0x4D, 0x30, 2, 2, 0, 9, 0]]"
  let ?v0 = "(quiet_world 50 2)\<lparr>network := [server [- 1] ?q]\<rparr>"
  let ?v1 = "(quiet_world 50 2)\<lparr>trace := [Connected 3]\<rparr>"
  let ?v2 = "(quiet_world 50 2)\<lparr>trace := [Connected 3, Hello False]\<rparr>"
  have d1: "spk_step Connecting ?v0 = (Handshaking \<lparr>fd = 3, tx = [- 1], rx = ?q, out = []\<rparr>, ?v1)"
    by (simp add: connect_step_def connect_to_def server_def quiet_world_def log_def)
  have d2: "spk_step (Handshaking \<lparr>fd = 3, tx = [- 1], rx = ?q, out = []\<rparr>) ?v1 =
      (Streaming \<lparr>fd = 3, tx = [], rx = ?q, out = []\<rparr>, ?v2)"
    by (subst spk_token_refused [of _ "- 1" "[]"]) (simp_all add: log_def quiet_world_def)
  have d3: "spk_step (Streaming \<lparr>fd = 3, tx = [], rx = ?q, out = []\<rparr>) ?v2 =
      (Streaming \<lparr>fd = 3, tx = [], rx = [], out = []\<rparr>,
       (quiet_world 50 2)\<lparr>output_enabled := True,
         trace := [Connected 3, Hello False, EnableOutput True, OutputData [9]]\<rparr>)"
    by (simp add: quiet_world_def native_order_def native_def PCM_MAGIC_def recv_all_def recv_def
        bytes_u32_def bytes_u16_def invalid_packet_def recv_frame_def ensure_output_def
        EnableOutput_call_def OutputData_call_def log_def)
  have r4: "spk_run 3 (Connecting, ?v0) =
      (Streaming \<lparr>fd = 3, tx = [], rx = [], out = []\<rparr>,
       (quiet_world 50 2)\<lparr>output_enabled := True,
         trace := [Connected 3, Hello False, EnableOutput True, OutputData [9]]\<rparr>)"
    by (simp only: spk_run_3 spk_run.simps d1 d2 d3)
  from r2 r3 r4 show ?thesis by (intro conjI)
qed

text \<open>
  C8. \<^verbatim>\<open>send_all\<close> returns for every buffer and every transport. When it returns true
  the transport has taken exactly the bytes of the buffer, in order, whatever the sizes of
  the partial sends; when it returns false the transport has taken a proper prefix. The
  \<^verbatim>\<open>send\<close> calls it made all took at least one byte, except, when it returns false,
  the last one, which returned zero or an error (or found the script used up, the error
  \<open>-1\<close>); as long as every \<^verbatim>\<open>send\<close> takes at least one byte it returns true. In the
  inner loop of the uplink, after a block was read, the step ends at \<open>Streaming\<close> when
  both \<^verbatim>\<open>send_all\<close> calls (header, payload) return true, and otherwise at
  \<open>Closing\<close>, from where the next step is back at \<open>Connecting\<close>.
\<close>

theorem send_all_complete_or_closing:
  "(fst (send_all data s) \<longrightarrow> out (snd (send_all data s)) = out s @ data) \<and>
   (\<not> fst (send_all data s) \<longrightarrow>
      (\<exists>k<length data. out (snd (send_all data s)) = out s @ take k data)) \<and>
   (\<exists>used. tx s = used @ tx (snd (send_all data s)) \<and>
      (if fst (send_all data s) then \<forall>r\<in>set used. 0 < r
       else (used \<noteq> [] \<and> last used \<le> 0 \<and> (\<forall>r\<in>set (butlast used). 0 < r)) \<or>
            (tx (snd (send_all data s)) = [] \<and> (\<forall>r\<in>set used. 0 < r)))) \<and>
   ((\<forall>r\<in>set (tx s). 0 < r) \<and> length data \<le> length (tx s) \<longrightarrow> fst (send_all data s)) \<and>
   (InputData frame (ensure_input w) = (True, frame', w') \<longrightarrow>
      (if fst (send_all (hdr_bytes native_order (pcm_header 1 frame')) s) \<and>
          fst (send_all (frame_bytes native_order frame')
                (snd (send_all (hdr_bytes native_order (pcm_header 1 frame')) s)))
       then \<exists>s'. fst (mic_step (Streaming s) frame w) = Streaming s'
       else \<exists>s'. fst (mic_step (Streaming s) frame w) = Closing s' \<and>
              fst (mic_run 2 (Streaming s, frame, w)) = Connecting))"
proof -
  have willing: "fst (send_all data s)"
    if "\<forall>r\<in>set (tx s). 0 < r" "length data \<le> length (tx s)"
  proof -
    from that(1) have "\<forall>r\<in>set (take (length data - 0) (tx s)). 0 < r"
      by (meson in_set_takeD)
    with that(2) show ?thesis
      unfolding send_all_def by (intro send_loop_willing) simp_all
  qed
  have c1: "fst (send_all data s) \<longrightarrow> out (snd (send_all data s)) = out s @ data"
    using send_loop_sent [of data 0 s] by (simp add: send_all_def)
  have c2: "\<not> fst (send_all data s) \<longrightarrow>
      (\<exists>k<length data. out (snd (send_all data s)) = out s @ take k data)"
    using send_loop_short [of data 0 s] by (auto simp: send_all_def)
  have c2': "\<exists>used. tx s = used @ tx (snd (send_all data s)) \<and>
      (if fst (send_all data s) then \<forall>r\<in>set used. 0 < r
       else (used \<noteq> [] \<and> last used \<le> 0 \<and> (\<forall>r\<in>set (butlast used). 0 < r)) \<or>
            (tx (snd (send_all data s)) = [] \<and> (\<forall>r\<in>set used. 0 < r)))"
    using send_loop_script [of s data 0] by (simp only: send_all_def)
  have c3: "(\<forall>r\<in>set (tx s). 0 < r) \<and> length data \<le> length (tx s) \<longrightarrow> fst (send_all data s)"
    using willing by blast
  have c4: "InputData frame (ensure_input w) = (True, frame', w') \<longrightarrow>
      (if fst (send_all (hdr_bytes native_order (pcm_header 1 frame')) s) \<and>
          fst (send_all (frame_bytes native_order frame')
                (snd (send_all (hdr_bytes native_order (pcm_header 1 frame')) s)))
       then \<exists>s'. fst (mic_step (Streaming s) frame w) = Streaming s'
       else \<exists>s'. fst (mic_step (Streaming s) frame w) = Closing s' \<and>
              fst (mic_run 2 (Streaming s, frame, w)) = Connecting)"
  proof
    assume i: "InputData frame (ensure_input w) = (True, frame', w')"
    then have step: "mic_step (Streaming s) frame w = send_frame s frame' w'"
      by simp
    show "if fst (send_all (hdr_bytes native_order (pcm_header 1 frame')) s) \<and>
          fst (send_all (frame_bytes native_order frame')
                (snd (send_all (hdr_bytes native_order (pcm_header 1 frame')) s)))
       then \<exists>s'. fst (mic_step (Streaming s) frame w) = Streaming s'
       else \<exists>s'. fst (mic_step (Streaming s) frame w) = Closing s' \<and>
              fst (mic_run 2 (Streaming s, frame, w)) = Connecting"
    proof (cases "fst (send_all (hdr_bytes native_order (pcm_header 1 frame')) s) \<and>
          fst (send_all (frame_bytes native_order frame')
                (snd (send_all (hdr_bytes native_order (pcm_header 1 frame')) s)))")
      case True
      with send_frame_pc [of frame' s w'] step show ?thesis
        by (simp del: mic_step.simps)
    next
      case False
      with send_frame_pc [of frame' s w'] obtain s' where s': "fst (send_frame s frame' w') = Closing s'"
        by blast
      obtain f2 w2 where sf: "send_frame s frame' w' = (Closing s', f2, w2)"
        using s' by (cases "send_frame s frame' w'") simp
      have "mic_run 2 (Streaming s, frame, w) = mic_step (Closing s') f2 w2"
        using step sf by (simp add: numeral_2_eq_2)
      then have "fst (mic_run 2 (Streaming s, frame, w)) = Connecting"
        by (simp add: close_step_def)
      with False s' step show ?thesis
        by (simp del: mic_step.simps mic_run.simps)
    qed
  qed
  from c1 c2 c2' c3 c4 show ?thesis by (intro conjI)
qed

theorem send_all_complete_or_closing_witness:
  "send_all [1, 2, 3, 4, 5] (test_sock [2, 1, 5] []) =
     (True, \<lparr>fd = 3, tx = [], rx = [], out = [1, 2, 3, 4, 5]\<rparr>) \<and>
   send_all [1, 2, 3, 4, 5] (test_sock [2, 0, 5] []) =
     (False, \<lparr>fd = 3, tx = [5], rx = [], out = [1, 2]\<rparr>) \<and>
   fst (send_all [1, 2, 3, 4, 5] (test_sock [1, 1, 1, 1, 1] [])) \<and>
   out (snd (send_all [1, 2, 3, 4, 5] (test_sock [1, 1, 1, 1, 1] []))) = [1, 2, 3, 4, 5] \<and>
   fst (mic_step (Streaming (test_sock [7, 2] [])) [0, 0]
         ((quiet_world 50 2)\<lparr>capture := [Some [5, 6]]\<rparr>)) =
     Closing \<lparr>fd = 3, tx = [], rx = [], out = [0x50, 0x43, 0x4D, 0x30, 1, 4, 0, 5, 0]\<rparr> \<and>
   fst (mic_run 2 (Streaming (test_sock [7, 2] []), [0, 0],
         (quiet_world 50 2)\<lparr>capture := [Some [5, 6]]\<rparr>)) = Connecting"
proof -
  have a: "send_all [1, 2, 3, 4, 5] (test_sock [2, 1, 5] []) =
     (True, \<lparr>fd = 3, tx = [], rx = [], out = [1, 2, 3, 4, 5]\<rparr>)"
    by (simp add: send_all_def send_def test_sock_def)
  have b: "send_all [1, 2, 3, 4, 5] (test_sock [2, 0, 5] []) =
     (False, \<lparr>fd = 3, tx = [5], rx = [], out = [1, 2]\<rparr>)"
    by (simp add: send_all_def send_def test_sock_def)
  have c: "(\<forall>r\<in>set (tx (test_sock [1, 1, 1, 1, 1] [])). 0 < r) \<and>
      length [1, 2, 3, 4, 5 :: byte] \<le> length (tx (test_sock [1, 1, 1, 1, 1] []))"
    by (simp add: test_sock_def)
  have i: "InputData [0, 0] (ensure_input ((quiet_world 50 2)\<lparr>capture := [Some [5, 6]]\<rparr>)) =
      (True, [5, 6], (quiet_world 50 2)\<lparr>capture := [], input_enabled := True,
         trace := [EnableInput True]\<rparr>)"
    by (simp add: InputData_def ensure_input_def EnableInput_call_def log_def quiet_world_def)
  have h: "fst (send_all (hdr_bytes native_order (pcm_header 1 [5, 6])) (test_sock [7, 2] []))"
    by (simp add: send_all_def send_def test_sock_def hdr_bytes_def native_order_def native_def
        u32_bytes_def u16_bytes_def)
  have p: "\<not> fst (send_all (frame_bytes native_order [5, 6])
      (snd (send_all (hdr_bytes native_order (pcm_header 1 [5, 6])) (test_sock [7, 2] []))))"
    by (simp add: send_all_def send_def test_sock_def hdr_bytes_def native_order_def native_def
        u32_bytes_def u16_bytes_def frame_bytes_def)
  have st: "fst (mic_step (Streaming (test_sock [7, 2] [])) [0, 0]
         ((quiet_world 50 2)\<lparr>capture := [Some [5, 6]]\<rparr>)) =
     Closing \<lparr>fd = 3, tx = [], rx = [], out = [0x50, 0x43, 0x4D, 0x30, 1, 4, 0, 5, 0]\<rparr>"
    by (simp add: i send_frame_def send_all_def send_def test_sock_def hdr_bytes_def native_order_def
        native_def u32_bytes_def u16_bytes_def frame_bytes_def pcm_header_def PCM_MAGIC_def)
  from send_all_complete_or_closing [of "[1, 2, 3, 4, 5]" "test_sock [1, 1, 1, 1, 1] []"] c
  have d: "fst (send_all [1, 2, 3, 4, 5] (test_sock [1, 1, 1, 1, 1] []))"
    "out (snd (send_all [1, 2, 3, 4, 5] (test_sock [1, 1, 1, 1, 1] []))) = [1, 2, 3, 4, 5]"
    by (simp_all add: test_sock_def)
  from send_all_complete_or_closing [of "[]" "test_sock [7, 2] []" "[0, 0]"
      "(quiet_world 50 2)\<lparr>capture := [Some [5, 6]]\<rparr>" "[5, 6]"
      "(quiet_world 50 2)\<lparr>capture := [], input_enabled := True, trace := [EnableInput True]\<rparr>"] i h p
  have e: "fst (mic_run 2 (Streaming (test_sock [7, 2] []), [0, 0],
         (quiet_world 50 2)\<lparr>capture := [Some [5, 6]]\<rparr>)) = Connecting"
    by (simp del: mic_step.simps mic_run.simps)
  from a b d st e show ?thesis
    by (simp del: mic_step.simps mic_run.simps)
qed

text \<open>
  C9. When \<^verbatim>\<open>InputData\<close> reports no data \<open>K\<close> times and then delivers a block, the
  uplink is still at \<open>Streaming\<close> on the same, untouched socket after the \<open>K\<close> polls;
  what it did meanwhile is one delay of 5 ms per poll (after enabling the input once, if
  it was not enabled); the step after sends the block as a frame on that socket; and
  none of the actions of these \<open>K + 1\<close> steps makes or closes a connection.
\<close>

theorem no_data_polls_keep_connection:
  assumes "capture w = replicate K None @ Some blk # rest"
  shows "fst (mic_run K (Streaming s, frame, w)) = Streaming s \<and>
    trace (snd (snd (mic_run K (Streaming s, frame, w)))) =
      trace w @ (if K = 0 \<or> input_enabled w then [] else [EnableInput True]) @ replicate K (Delay 5) \<and>
    (\<exists>w'. mic_run (Suc K) (Streaming s, frame, w) =
            send_frame s (take (length frame) blk @ drop (length blk) frame) w' \<and>
          trace w' = trace w @ (if input_enabled w then [] else [EnableInput True]) @
            replicate K (Delay 5)) \<and>
    (\<forall>a\<in>set (new_actions w (snd (snd (mic_run (Suc K) (Streaming s, frame, w))))).
       \<not> connection_action a)"
proof -
  let ?e = "ensure_input w"
  let ?wK = "?e\<lparr>capture := Some blk # rest, trace := trace ?e @ replicate K (Delay 5)\<rparr>"
  let ?frame = "take (length frame) blk @ drop (length blk) frame"
  have cap: "capture ?e = replicate K None @ Some blk # rest"
    using assms by (simp add: ensure_input_def EnableInput_call_def log_def)
  have te: "trace ?e = trace w @ (if input_enabled w then [] else [EnableInput True])"
    by (simp add: ensure_input_def EnableInput_call_def log_def)
  have runK: "mic_run K (Streaming s, frame, ?e) = (Streaming s, frame, ?wK)"
    using mic_polls [OF cap input_enabled_ensure] .
  have K: "mic_run K (Streaming s, frame, w) =
      (Streaming s, frame, if K = 0 then w else ?wK)"
  proof (cases "K = 0")
    case True
    then show ?thesis by simp
  next
    case False
    then show ?thesis using mic_run_ensure [of K s frame w] runK by simp
  qed
  have en: "ensure_input (if K = 0 then w else ?wK) = ?wK"
  proof (cases "K = 0")
    case True
    with assms have "?wK = ?e"
      by (simp add: ensure_input_def EnableInput_call_def log_def)
    with True show ?thesis by simp
  next
    case False
    then show ?thesis by (simp add: ensure_input_def EnableInput_call_def log_def)
  qed
  have "mic_run (Suc K) (Streaming s, frame, w) =
      mic_step (Streaming s) frame (if K = 0 then w else ?wK)"
    by (simp only: mic_run_Suc K prod.case)
  also have "\<dots> = send_frame s ?frame (?wK\<lparr>capture := rest\<rparr>)"
    by (simp only: mic_step.simps en) (simp add: InputData_def)
  finally have SK: "mic_run (Suc K) (Streaming s, frame, w) = send_frame s ?frame (?wK\<lparr>capture := rest\<rparr>)" .
  have tw: "trace (?wK\<lparr>capture := rest\<rparr>) =
      trace w @ (if input_enabled w then [] else [EnableInput True]) @ replicate K (Delay 5)"
    using te by simp
  obtain acts where acts: "trace (snd (snd (send_frame s ?frame (?wK\<lparr>capture := rest\<rparr>)))) =
      trace (?wK\<lparr>capture := rest\<rparr>) @ acts" "\<forall>a\<in>set acts. \<not> connection_action a"
    using send_frame_trace by blast
  have c1: "fst (mic_run K (Streaming s, frame, w)) = Streaming s"
    using K by simp
  have c2: "trace (snd (snd (mic_run K (Streaming s, frame, w)))) =
      trace w @ (if K = 0 \<or> input_enabled w then [] else [EnableInput True]) @ replicate K (Delay 5)"
    using K te by simp
  have c3: "\<exists>w'. mic_run (Suc K) (Streaming s, frame, w) = send_frame s ?frame w' \<and>
      trace w' = trace w @ (if input_enabled w then [] else [EnableInput True]) @ replicate K (Delay 5)"
    using SK tw by blast
  have c4: "\<forall>a\<in>set (new_actions w (snd (snd (mic_run (Suc K) (Streaming s, frame, w))))).
       \<not> connection_action a"
  proof -
    have "trace (snd (snd (mic_run (Suc K) (Streaming s, frame, w)))) =
        trace w @ ((if input_enabled w then [] else [EnableInput True]) @ replicate K (Delay 5) @ acts)"
      by (simp only: SK acts(1) tw append_assoc)
    then have "new_actions w (snd (snd (mic_run (Suc K) (Streaming s, frame, w)))) =
        (if input_enabled w then [] else [EnableInput True]) @ replicate K (Delay 5) @ acts"
      by (simp add: new_actions_def del: mic_run.simps)
    with acts(2) show ?thesis
      by (auto simp del: mic_run.simps simp add: connection_action_def)
  qed
  from c1 c2 c3 c4 show ?thesis by blast
qed


theorem no_data_polls_keep_connection_witness:
  "fst (mic_run 3 (Streaming (test_sock [7, 4] []), [0, 0],
      (quiet_world 50 2)\<lparr>capture := [None, None, None, Some [5, 6]]\<rparr>)) = Streaming (test_sock [7, 4] []) \<and>
   trace (snd (snd (mic_run 3 (Streaming (test_sock [7, 4] []), [0, 0],
      (quiet_world 50 2)\<lparr>capture := [None, None, None, Some [5, 6]]\<rparr>)))) =
     [EnableInput True, Delay 5, Delay 5, Delay 5]"
proof -
  have c: "capture ((quiet_world 50 2)\<lparr>capture := [None, None, None, Some [5, 6]]\<rparr>) =
      replicate 3 None @ Some [5, 6] # []"
    by (simp add: numeral_3_eq_3)
  show ?thesis
    using no_data_polls_keep_connection [OF c, of "test_sock [7, 4] []" "[0, 0]"]
    by (simp add: quiet_world_def numeral_3_eq_3 del: mic_run.simps)
qed




text \<open>
  C7 (as amended). At every moment of a run of the uplink the block buffer, and every
  payload sent, has (sample rate div 50) times channel count samples, as computed once at
  the start. That is 20 ms of audio per channel exactly when the sample rate is a multiple
  of 50 Hz, and otherwise less than 20 ms by under one sample period. At 24000 Hz mono
  the block has 480 samples, every payload has 960 bytes and every header declares 960.
\<close>

theorem uplink_block_size:
  assumes "mic_run n (mic_start w) = (p', frame', w')"
  shows "length frame' = (input_sample_rate w div 50) * input_channels w \<and>
    (\<forall>f ok. SendPayload f ok \<in> set (new_actions w w') \<longrightarrow>
       length f = (input_sample_rate w div 50) * input_channels w) \<and>
    (50 dvd input_sample_rate w \<longrightarrow> (input_sample_rate w div 50) * 50 = input_sample_rate w) \<and>
    (input_sample_rate w div 50) * 50 \<le> input_sample_rate w \<and>
    input_sample_rate w < (input_sample_rate w div 50) * 50 + 50 \<and>
    (input_sample_rate w = 24000 \<and> input_channels w = 1 \<longrightarrow>
       length frame' = 480 \<and>
       (\<forall>f ok. SendPayload f ok \<in> set (new_actions w w') \<longrightarrow>
          length f = 480 \<and> length (frame_bytes native_order f) = 960) \<and>
       (\<forall>h ok. SendHeader h ok \<in> set (new_actions w w') \<longrightarrow> unat (len h) = 960))"
proof -
  let ?N = "(input_sample_rate w div 50) * input_channels w"
  have N: "frame_samples w * input_channels w = ?N"
    by (simp add: frame_samples_def)
  have l: "length frame' = ?N"
    using mic_task_frame(1) [OF assms] N by simp
  have a: "\<forall>a\<in>set (new_actions w w'). frame_action ?N a"
    using mic_task_frame(2) [OF assms] N by simp
  have pay: "length f = ?N" if "SendPayload f ok \<in> set (new_actions w w')" for f ok
    using a that frame_action_payload by blast
  have hd: "h = \<lparr>magic = PCM_MAGIC, type = 1, len = of_nat (?N * 2)\<rparr>"
    if "SendHeader h ok \<in> set (new_actions w w')" for h ok
    using a that frame_action_header by blast
  have c3: "50 dvd input_sample_rate w \<longrightarrow> (input_sample_rate w div 50) * 50 = input_sample_rate w"
    by simp
  have c4: "(input_sample_rate w div 50) * 50 \<le> input_sample_rate w"
    by simp
  have c5: "input_sample_rate w < (input_sample_rate w div 50) * 50 + 50"
    by (metis add.commute dividend_less_div_times zero_less_numeral mult.commute)
  have c6: "input_sample_rate w = 24000 \<and> input_channels w = 1 \<longrightarrow>
       length frame' = 480 \<and>
       (\<forall>f ok. SendPayload f ok \<in> set (new_actions w w') \<longrightarrow>
          length f = 480 \<and> length (frame_bytes native_order f) = 960) \<and>
       (\<forall>h ok. SendHeader h ok \<in> set (new_actions w w') \<longrightarrow> unat (len h) = 960)"
  proof
    assume "input_sample_rate w = 24000 \<and> input_channels w = 1"
    then have n: "?N = 480" by simp
    have "unat (len h) = 960" if "SendHeader h ok \<in> set (new_actions w w')" for h ok
    proof -
      have "len h = of_nat (480 * 2)"
        using hd [OF that] n by simp
      then show ?thesis
        using len_word_small [of 480] by simp
    qed
    moreover have "length f = 480 \<and> length (frame_bytes native_order f) = 960"
      if "SendPayload f ok \<in> set (new_actions w w')" for f ok
      using pay [OF that] n by (simp add: length_frame_bytes)
    ultimately show "length frame' = 480 \<and>
       (\<forall>f ok. SendPayload f ok \<in> set (new_actions w w') \<longrightarrow>
          length f = 480 \<and> length (frame_bytes native_order f) = 960) \<and>
       (\<forall>h ok. SendHeader h ok \<in> set (new_actions w w') \<longrightarrow> unat (len h) = 960)"
      using l n by simp
  qed
  from l pay c3 c4 c5 c6 show ?thesis
    by blast
qed

theorem uplink_block_size_witness:
  "length (replicate 480 (7::sample)) = 480 \<and>
   length (frame_bytes native_order (replicate 480 7)) = 960 \<and>
   unat (len \<lparr>magic = PCM_MAGIC, type = 1, len = 960\<rparr>) = 960 \<and>
   input_sample_rate (mono_24k [server [8, 7, 960] []] [Some (replicate 480 7)]) div 50 * 50 =
     input_sample_rate (mono_24k [server [8, 7, 960] []] [Some (replicate 480 7)])"
proof -
  let ?W = "mono_24k [server [8, 7, 960] []] [Some (replicate 480 7)]"
  have c: "input_sample_rate ?W = 24000 \<and> input_channels ?W = 1" "50 dvd input_sample_rate ?W"
    by (simp_all add: mono_24k_def)
  have m: "SendPayload (replicate 480 7) True \<in> set (new_actions ?W
     ((mono_24k [] [])\<lparr>input_enabled := True,
        trace := [Connected 3, Hello True, EnableInput True,
          SendHeader \<lparr>magic = PCM_MAGIC, type = 1, len = 960\<rparr> True,
          SendPayload (replicate 480 7) True]\<rparr>))"
    "SendHeader \<lparr>magic = PCM_MAGIC, type = 1, len = 960\<rparr> True \<in> set (new_actions ?W
     ((mono_24k [] [])\<lparr>input_enabled := True,
        trace := [Connected 3, Hello True, EnableInput True,
          SendHeader \<lparr>magic = PCM_MAGIC, type = 1, len = 960\<rparr> True,
          SendPayload (replicate 480 7) True]\<rparr>))"
    by (simp_all only: mono_new_actions) simp_all
  from uplink_block_size [OF mono_run] c m show ?thesis
    by blast
qed

text \<open>
  C7 as stated fails at 11025 Hz: the block has 220 samples per channel, and 20 ms of
  audio at that rate would be 220.5.
\<close>

theorem uplink_block_size_counterexample:
  "length (fst (snd (mic_start (quiet_world 11025 1)))) = 220 \<and>
   220 * 50 \<noteq> input_sample_rate (quiet_world 11025 1)"
  by (simp add: mic_start_def frame_samples_def quiet_world_def)

text \<open>
  C10 (as amended). Every header the uplink sends, on any connection of a run, has the
  magic \<open>PCM_MAGIC\<close>, the tag 1 and the same declared length: the byte count of the
  block (samples per block times 2) cast to 16 bits. That length is always even; it is
  zero exactly when the number of samples per block is a multiple of 32768 (zero
  included); and for fewer than 32768 samples it is the byte count itself.
\<close>

theorem uplink_header_invariant:
  assumes "mic_run n (mic_start w) = (p', frame', w')"
    and "SendHeader h ok \<in> set (new_actions w w')"
  shows "magic h = PCM_MAGIC \<and> type h = 1 \<and>
    len h = of_nat (frame_samples w * input_channels w * 2) \<and>
    even (unat (len h)) \<and>
    (len h = 0) = (32768 dvd frame_samples w * input_channels w) \<and>
    (frame_samples w * input_channels w < 32768 \<longrightarrow>
       unat (len h) = frame_samples w * input_channels w * 2)"
proof -
  have "frame_action (frame_samples w * input_channels w) (SendHeader h ok)"
    using mic_task_frame(2) [OF assms(1)] assms(2) by blast
  then have h: "h = \<lparr>magic = PCM_MAGIC, type = 1, len = of_nat (frame_samples w * input_channels w * 2)\<rparr>"
    by (simp only: frame_action_header)
  then have l: "len h = of_nat (frame_samples w * input_channels w * 2)"
    by simp
  show ?thesis
    using h len_word_even [of "frame_samples w * input_channels w"]
      len_word_zero [of "frame_samples w * input_channels w"]
      len_word_small [of "frame_samples w * input_channels w"]
    by (simp only: l) simp
qed

theorem uplink_header_invariant_witness:
  "magic \<lparr>magic = PCM_MAGIC, type = 1, len = 4\<rparr> = PCM_MAGIC \<and>
   type \<lparr>magic = PCM_MAGIC, type = 1, len = 4\<rparr> = 1 \<and>
   len \<lparr>magic = PCM_MAGIC, type = 1, len = 4\<rparr> =
     of_nat (frame_samples (quiet_world 50 2) * input_channels (quiet_world 50 2) * 2) \<and>
   even (unat (len \<lparr>magic = PCM_MAGIC, type = 1, len = 4\<rparr>)) \<and>
   len \<lparr>magic = PCM_MAGIC, type = 1, len = 4\<rparr> \<noteq> 0 \<and>
   unat (len \<lparr>magic = PCM_MAGIC, type = 1, len = 4\<rparr>) = 4"
proof -
  have m: "SendHeader \<lparr>magic = PCM_MAGIC, type = 1, len = 4\<rparr> True \<in> set (new_actions
     ((quiet_world 50 2)\<lparr>network := [server [8, 7, 4] []], capture := [Some [5, 6]]\<rparr>)
     ((quiet_world 50 2)\<lparr>input_enabled := True,
        trace := [Connected 3, Hello True, EnableInput True,
          SendHeader \<lparr>magic = PCM_MAGIC, type = 1, len = 4\<rparr> True, SendPayload [5, 6] True]\<rparr>))"
    by (simp only: small_new_actions) simp
  from uplink_header_invariant [OF small_run m] show ?thesis
    by (simp add: frame_samples_def quiet_world_def)
qed

text \<open>
  C10 as stated fails for a codec that reports 40 Hz: the block has no samples and the
  frame that is sent declares the length 0.
\<close>

theorem uplink_header_invariant_counterexample:
  "mic_run 3 (mic_start ((quiet_world 40 2)\<lparr>network := [server [8, 7] []], capture := [Some []]\<rparr>)) =
     (Streaming \<lparr>fd = 3, tx = [], rx = [],
        out = hello_up @ [0x50, 0x43, 0x4D, 0x30, 1, 0, 0]\<rparr>,
      [],
      (quiet_world 40 2)\<lparr>input_enabled := True,
        trace := [Connected 3, Hello True, EnableInput True,
          SendHeader \<lparr>magic = PCM_MAGIC, type = 1, len = 0\<rparr> True, SendPayload [] True]\<rparr>)"
proof -
  let ?w0 = "(quiet_world 40 2)\<lparr>network := [server [8, 7] []], capture := [Some []]\<rparr>"
  let ?w1 = "(quiet_world 40 2)\<lparr>capture := [Some []], trace := [Connected 3]\<rparr>"
  let ?w2 = "(quiet_world 40 2)\<lparr>capture := [Some []], trace := [Connected 3, Hello True]\<rparr>"
  let ?S0 = "\<lparr>fd = 3, tx = [8, 7], rx = [], out = []\<rparr>"
  let ?S1 = "\<lparr>fd = 3, tx = [7], rx = [], out = hello_up\<rparr>"
  have start: "mic_start ?w0 = (Connecting, [], ?w0)"
    by (simp add: mic_start_def frame_samples_def quiet_world_def)
  have s1: "mic_step Connecting [] ?w0 = (Handshaking ?S0, [], ?w1)"
    by (simp add: connect_step_def connect_to_def server_def quiet_world_def log_def)
  have "send_all hello_up ?S0 = (True, ?S1)"
    by (subst send_all_taken [of _ 8 "[7]"]) (simp_all add: length_hello_up hello_up_ne)
  then have s2: "mic_step (Handshaking ?S0) [] ?w1 = (Streaming ?S1, [], ?w2)"
    by (simp add: log_def quiet_world_def)
  have s3: "mic_step (Streaming ?S1) [] ?w2 =
     (Streaming \<lparr>fd = 3, tx = [], rx = [],
        out = hello_up @ [0x50, 0x43, 0x4D, 0x30, 1, 0, 0]\<rparr>,
      [],
      (quiet_world 40 2)\<lparr>input_enabled := True,
        trace := [Connected 3, Hello True, EnableInput True,
          SendHeader \<lparr>magic = PCM_MAGIC, type = 1, len = 0\<rparr> True, SendPayload [] True]\<rparr>)"
    by (simp add: quiet_world_def ensure_input_def EnableInput_call_def InputData_def log_def
        send_frame_def send_all_def send_def hdr_bytes_def native_order_def native_def
        u32_bytes_def u16_bytes_def frame_bytes_def pcm_header_def PCM_MAGIC_def length_hello_up)
  show ?thesis
    by (simp only: mic_run_3 start mic_run.simps s1 s2 s3)
qed

end
